theory Spec2Isabelle
  imports Complex_Main
begin

section \<open>Data model (src/types/index.ts)\<close>

text \<open>
  JavaScript numbers are idealised as the reals: the store and the layout hook only ever
  add, subtract, multiply, divide and compare them, and the specification excludes NaN and
  the infinities from every input. Strings are \<open>string\<close>, \<open>T | null\<close> and optional fields
  are \<open>T option\<close>.
\<close>

datatype NodeStatusType = SEED | SPROUT | FLOWERING | FRUIT

datatype EdgeTypeType = DERIVE | IMPLEMENT

record IdeaNode =
  n_id :: string
  n_parentId :: "string option"
  n_text :: string
  n_status :: NodeStatusType
  n_x :: real
  n_y :: real
  n_radius :: real
  n_energy :: real
  n_color :: string
  n_createdAt :: real

record IdeaEdge =
  e_id :: string
  e_sourceId :: string
  e_targetId :: string
  e_type :: EdgeTypeType

record CameraState =
  scale :: real
  offsetX :: real
  offsetY :: real

record DragSpawnState =
  isDragging :: bool
  sourceNodeId :: "string option"
  startX :: real
  startY :: real
  currentX :: real
  currentY :: real

text \<open>The values of \<open>NODE_COLORS\<close>, in the order \<open>Object.values\<close> lists them.\<close>

definition NODE_COLORS :: "string list" where
  "NODE_COLORS = [''#6B30FF'', ''#452F8F'', ''#A78BFF'', ''#2895F7'',
                  ''#00C853'', ''#00BCD4'', ''#E91E63'', ''#FF9800'']"

section \<open>The store (src/hooks/useIdeaStore.ts)\<close>

record IdeaState =
  nodes :: "IdeaNode list"
  edges :: "IdeaEdge list"
  camera :: CameraState
  dragSpawn :: DragSpawnState
  selectedNodeId :: "string option"
  editingNodeId :: "string option"
  canvasWidth :: real
  canvasHeight :: real

subsection \<open>Camera\<close>

definition pan :: "real \<Rightarrow> real \<Rightarrow> IdeaState \<Rightarrow> IdeaState" where
  "pan dx dy state =
     state\<lparr>camera := (camera state)\<lparr>offsetX := offsetX (camera state) + dx,
                                      offsetY := offsetY (camera state) + dy\<rparr>\<rparr>"

text \<open>
  \<open>zoom(factor, centerX?, centerY?)\<close>: each of the two pivot coordinates falls back to the
  viewport centre on its own (\<open>centerX ?? canvasWidth / 2\<close>).
\<close>

definition zoom :: "real \<Rightarrow> real option \<Rightarrow> real option \<Rightarrow> IdeaState \<Rightarrow> IdeaState" where
  "zoom factor centerX centerY state =
     (let cam = camera state;
          cx = (case centerX of Some c \<Rightarrow> c | None \<Rightarrow> canvasWidth state / 2);
          cy = (case centerY of Some c \<Rightarrow> c | None \<Rightarrow> canvasHeight state / 2);
          newScale = max (1 / 10) (min 5 (scale cam * factor));
          scaleRatio = newScale / scale cam;
          newOffsetX = cx - (cx - offsetX cam) * scaleRatio;
          newOffsetY = cy - (cy - offsetY cam) * scaleRatio
      in state\<lparr>camera := \<lparr>scale = newScale, offsetX = newOffsetX, offsetY = newOffsetY\<rparr>\<rparr>)"

definition resetCamera :: "IdeaState \<Rightarrow> IdeaState" where
  "resetCamera state = state\<lparr>camera := \<lparr>scale = 1, offsetX = 0, offsetY = 0\<rparr>\<rparr>"

text \<open>
  \<open>screenToWorld\<close> of the canvas component, and the transform the stage applies when it
  draws (\<open>scaleX = scaleY = camera.scale\<close>, \<open>x = offsetX\<close>, \<open>y = offsetY\<close>).
\<close>

definition screenToWorld :: "CameraState \<Rightarrow> real \<times> real \<Rightarrow> real \<times> real" where
  "screenToWorld cam p = ((fst p - offsetX cam) / scale cam, (snd p - offsetY cam) / scale cam)"

definition worldToScreen :: "CameraState \<Rightarrow> real \<times> real \<Rightarrow> real \<times> real" where
  "worldToScreen cam w = (fst w * scale cam + offsetX cam, snd w * scale cam + offsetY cam)"

subsection \<open>Nodes and edges\<close>

text \<open>
  \<open>generateId\<close> builds \<open>node_<Date.now()>_<random base-36 digits>\<close>. The clock and the
  random source are inputs of the model: \<open>now\<close> is the decimal text of \<open>Date.now()\<close> and
  \<open>rnd\<close> the nine base-36 digits of \<open>Math.random()\<close>.
\<close>

definition generateId :: "string \<Rightarrow> string \<Rightarrow> string" where
  "generateId now rnd = ''node_'' @ now @ ''_'' @ rnd"

text \<open>
  \<open>getRandomColor\<close>: \<open>colors[Math.floor(Math.random() * colors.length)]\<close>; \<open>r\<close> is the value
  \<open>Math.random()\<close> returned, which lies in \<open>[0, 1)\<close>.
\<close>

definition getRandomColor :: "real \<Rightarrow> string" where
  "getRandomColor r = NODE_COLORS ! nat \<lfloor>r * real (length NODE_COLORS)\<rfloor>"

text \<open>
  JavaScript's \<open>a || b\<close> yields \<open>b\<close> when \<open>a\<close> is falsy: \<open>undefined\<close>, the number \<open>0\<close>, the
  empty string. A status is one of four non-empty strings, hence falsy only when absent.
\<close>

definition or_number :: "real option \<Rightarrow> real \<Rightarrow> real" where
  "or_number a b = (case a of None \<Rightarrow> b | Some v \<Rightarrow> if v = 0 then b else v)"

definition or_string :: "string option \<Rightarrow> string \<Rightarrow> string" where
  "or_string a b = (case a of None \<Rightarrow> b | Some v \<Rightarrow> if v = [] then b else v)"

definition or_status :: "NodeStatusType option \<Rightarrow> NodeStatusType \<Rightarrow> NodeStatusType" where
  "or_status a b = (case a of None \<Rightarrow> b | Some v \<Rightarrow> v)"

text \<open>The argument of \<open>addNode\<close>: \<open>Partial<IdeaNode> & {x, y, text}\<close>, the fields it reads.\<close>

record NodeData =
  d_text :: string
  d_x :: real
  d_y :: real
  d_status :: "NodeStatusType option"
  d_radius :: "real option"
  d_energy :: "real option"
  d_color :: "string option"
  d_parentId :: "string option"

text \<open>What one call of \<open>addNode\<close> or \<open>addEdge\<close> draws from the clock and the random source.\<close>

record Env =
  env_idNow :: string
  env_idRnd :: string
  env_colorRnd :: real
  env_createdAt :: real

definition addNode :: "Env \<Rightarrow> NodeData \<Rightarrow> IdeaState \<Rightarrow> string \<times> IdeaState" where
  "addNode env nodeData state =
     (let ident = generateId (env_idNow env) (env_idRnd env);
          newNode = \<lparr>n_id = ident,
                     n_parentId = d_parentId nodeData,
                     n_text = d_text nodeData,
                     n_status = or_status (d_status nodeData) SEED,
                     n_x = d_x nodeData,
                     n_y = d_y nodeData,
                     n_radius = or_number (d_radius nodeData) 35,
                     n_energy = or_number (d_energy nodeData) (1 / 2),
                     n_color = or_string (d_color nodeData) (getRandomColor (env_colorRnd env)),
                     n_createdAt = env_createdAt env\<rparr>
      in (ident, state\<lparr>nodes := nodes state @ [newNode]\<rparr>))"

definition removeNode :: "string \<Rightarrow> IdeaState \<Rightarrow> IdeaState" where
  "removeNode ident state =
     state\<lparr>nodes := filter (\<lambda>node. n_id node \<noteq> ident) (nodes state),
           edges := filter (\<lambda>edge. e_sourceId edge \<noteq> ident \<and> e_targetId edge \<noteq> ident) (edges state),
           selectedNodeId := (if selectedNodeId state = Some ident then None
                              else selectedNodeId state)\<rparr>"

text \<open>\<open>addEdge\<close> takes \<open>Omit<IdeaEdge, 'id'>\<close>; its \<open>type\<close> is always one of two non-empty strings.\<close>

definition addEdge :: "Env \<Rightarrow> string \<Rightarrow> string \<Rightarrow> EdgeTypeType \<Rightarrow> IdeaState \<Rightarrow> string \<times> IdeaState" where
  "addEdge env src tgt ty state =
     (let ident = generateId (env_idNow env) (env_idRnd env);
          newEdge = \<lparr>e_id = ident, e_sourceId = src, e_targetId = tgt, e_type = ty\<rparr>
      in (ident, state\<lparr>edges := edges state @ [newEdge]\<rparr>))"

subsection \<open>The drag-spawn gesture\<close>

definition idleDragSpawn :: DragSpawnState where
  "idleDragSpawn = \<lparr>isDragging = False, sourceNodeId = None,
                     startX = 0, startY = 0, currentX = 0, currentY = 0\<rparr>"

definition startDragSpawn :: "string \<Rightarrow> real \<Rightarrow> real \<Rightarrow> IdeaState \<Rightarrow> IdeaState" where
  "startDragSpawn src sx sy state =
     state\<lparr>dragSpawn := \<lparr>isDragging = True, sourceNodeId = Some src,
                          startX = sx, startY = sy, currentX = sx, currentY = sy\<rparr>\<rparr>"

definition updateDragSpawn :: "real \<Rightarrow> real \<Rightarrow> IdeaState \<Rightarrow> IdeaState" where
  "updateDragSpawn cx cy state =
     state\<lparr>dragSpawn := (dragSpawn state)\<lparr>currentX := cx, currentY := cy\<rparr>\<rparr>"

record SpawnResult =
  r_x :: real
  r_y :: real
  r_sourceNodeId :: string

text \<open>
  \<open>endDragSpawn\<close> returns \<open>null\<close> and leaves the store alone when \<open>!isDragging\<close> or
  \<open>!sourceNodeId\<close>; the latter is true of \<open>null\<close> and of the empty string.
\<close>

definition endDragSpawn :: "IdeaState \<Rightarrow> SpawnResult option \<times> IdeaState" where
  "endDragSpawn state =
     (let ds = dragSpawn state in
      case sourceNodeId ds of
        None \<Rightarrow> (None, state)
      | Some src \<Rightarrow>
          if \<not> isDragging ds \<or> src = [] then (None, state)
          else (Some \<lparr>r_x = currentX ds, r_y = currentY ds, r_sourceNodeId = src\<rparr>,
                state\<lparr>dragSpawn := idleDragSpawn\<rparr>))"

definition cancelDragSpawn :: "IdeaState \<Rightarrow> IdeaState" where
  "cancelDragSpawn state = state\<lparr>dragSpawn := idleDragSpawn\<rparr>"

section \<open>Geometry (src/utils/bezier.ts)\<close>

text \<open>
  \<open>Math.atan2(y, x)\<close> on the reals: the angle of the point \<open>(x, y)\<close> in \<open>(-\<pi>, \<pi>]\<close>, and \<open>0\<close> at
  the origin.
\<close>

definition atan2 :: "real \<Rightarrow> real \<Rightarrow> real" where
  "atan2 y x =
     (if 0 < x then arctan (y / x)
      else if x < 0 then (if 0 \<le> y then arctan (y / x) + pi else arctan (y / x) - pi)
      else if 0 < y then pi / 2
      else if y < 0 then - (pi / 2)
      else 0)"

record Point =
  pt_x :: real
  pt_y :: real

definition getEdgePoint :: "real \<Rightarrow> real \<Rightarrow> real \<Rightarrow> real \<Rightarrow> real \<Rightarrow> Point" where
  "getEdgePoint fromX fromY fromRadius toX toY =
     (let angle = atan2 (toY - fromY) (toX - fromX)
      in \<lparr>pt_x = fromX + cos angle * fromRadius,
          pt_y = fromY + sin angle * fromRadius\<rparr>)"

section \<open>The layout hook (src/hooks/usePhysicsSimulation.ts)\<close>

definition alpha_start :: real where "alpha_start = 1"
definition alpha_min :: real where "alpha_min = 1 / 1000"
definition alpha_decay :: real where "alpha_decay = 2 / 100"
definition forceCenter_strength :: real where "forceCenter_strength = 3 / 100"

record PhysicsNode =
  p_id :: string
  p_x :: real
  p_y :: real
  p_vx :: real
  p_vy :: real
  p_radius :: real
  p_fx :: "real option"
  p_fy :: "real option"

record PhysicsEdge =
  pe_source :: string
  pe_target :: string

definition convertToPhysicsNode :: "IdeaNode \<Rightarrow> PhysicsNode" where
  "convertToPhysicsNode node =
     \<lparr>p_id = n_id node, p_x = n_x node, p_y = n_y node, p_vx = 0, p_vy = 0,
      p_radius = n_radius node,
      p_fx = (if n_status node = FRUIT then Some (n_x node) else None),
      p_fy = (if n_status node = FRUIT then Some (n_y node) else None)\<rparr>"

text \<open>
  Physics nodes are mutable objects shared between the map \<open>nodesRef\<close> and the node array
  handed to the simulation, so the model keeps them in a store: \<open>objects\<close> lists every
  physics node ever created, an address is an index into it, and both the map and the
  simulation hold addresses. What the hook configures on the d3 simulation and reads back
  is the record \<open>Simulation\<close>; \<open>sim_timer\<close> is the simulation's internal timer, started
  by \<open>forceSimulation\<close> and \<open>restart\<close>, halted by \<open>stop\<close>.
\<close>

record Simulation =
  sim_nodes :: "nat list"
  sim_links :: "PhysicsEdge list"
  sim_center :: "real \<times> real"
  sim_alpha :: real
  sim_alphaMin :: real
  sim_alphaDecay :: real
  sim_timer :: bool

record Engine =
  objects :: "PhysicsNode list"
  nodesRef :: "string \<rightharpoonup> nat"
  simulationRef :: "Simulation option"
  isRunningRef :: bool

definition engine0 :: Engine where
  "engine0 = \<lparr>objects = [], nodesRef = Map.empty, simulationRef = None, isRunningRef = False\<rparr>"

text \<open>
  The body of \<open>nodes.forEach\<close> in the effect: \<open>old\<close> is \<open>nodesRef.current\<close>, read but not
  written during the loop; the accumulator is the object store, \<open>newNodesMap\<close> and
  \<open>physicsNodes\<close>.
\<close>

definition updateExisting :: "IdeaNode \<Rightarrow> PhysicsNode \<Rightarrow> PhysicsNode" where
  "updateExisting node existingNode =
     existingNode\<lparr>p_x := n_x node, p_y := n_y node, p_radius := n_radius node,
                  p_fx := (if n_status node = FRUIT then Some (n_x node) else None),
                  p_fy := (if n_status node = FRUIT then Some (n_y node) else None)\<rparr>"

definition reconcileNode ::
  "(string \<rightharpoonup> nat) \<Rightarrow> IdeaNode \<Rightarrow> PhysicsNode list \<times> (string \<rightharpoonup> nat) \<times> nat list
     \<Rightarrow> PhysicsNode list \<times> (string \<rightharpoonup> nat) \<times> nat list" where
  "reconcileNode old node acc =
     (case acc of (objs, newNodesMap, physicsNodes) \<Rightarrow>
        (case old (n_id node) of
           Some a \<Rightarrow>
             (objs[a := updateExisting node (objs ! a)],
              newNodesMap(n_id node \<mapsto> a),
              physicsNodes @ [a])
         | None \<Rightarrow>
             (objs @ [convertToPhysicsNode node],
              newNodesMap(n_id node \<mapsto> length objs),
              physicsNodes @ [length objs])))"

definition reconcileNodes ::
  "Engine \<Rightarrow> IdeaNode list \<Rightarrow> PhysicsNode list \<times> (string \<rightharpoonup> nat) \<times> nat list" where
  "reconcileNodes eng ns = fold (reconcileNode (nodesRef eng)) ns (objects eng, Map.empty, [])"

definition physicsEdges :: "(string \<rightharpoonup> nat) \<Rightarrow> IdeaEdge list \<Rightarrow> PhysicsEdge list" where
  "physicsEdges newNodesMap es =
     map (\<lambda>edge. \<lparr>pe_source = e_sourceId edge, pe_target = e_targetId edge\<rparr>)
       (filter (\<lambda>edge. newNodesMap (e_sourceId edge) \<noteq> None \<and> newNodesMap (e_targetId edge) \<noteq> None) es)"

definition stopSimulation :: "Engine \<Rightarrow> Engine" where
  "stopSimulation eng =
     (case simulationRef eng of
        None \<Rightarrow> eng
      | Some sim \<Rightarrow> eng\<lparr>simulationRef := Some (sim\<lparr>sim_timer := False\<rparr>), isRunningRef := False\<rparr>)"

text \<open>
  The effect of the hook, run whenever \<open>nodes\<close>, \<open>edges\<close>, the canvas size or \<open>enabled\<close>
  change: reconcile the shadow nodes, filter the edges, then create the simulation or
  update the existing one.
\<close>

definition syncSimulation ::
  "bool \<Rightarrow> IdeaNode list \<Rightarrow> IdeaEdge list \<Rightarrow> real \<Rightarrow> real \<Rightarrow> Engine \<Rightarrow> Engine" where
  "syncSimulation enabled ns es cw ch eng =
     (if \<not> enabled then stopSimulation eng
      else
        (case reconcileNodes eng ns of (objs, newNodesMap, physicsNodes) \<Rightarrow>
           (case simulationRef eng of
              None \<Rightarrow>
                eng\<lparr>objects := objs, nodesRef := newNodesMap,
                    simulationRef := Some \<lparr>sim_nodes = physicsNodes,
                                           sim_links = physicsEdges newNodesMap es,
                                           sim_center = (cw / 2, ch / 2),
                                           sim_alpha = alpha_start,
                                           sim_alphaMin = alpha_min,
                                           sim_alphaDecay = alpha_decay,
                                           sim_timer = True\<rparr>,
                    isRunningRef := True\<rparr>
            | Some sim \<Rightarrow>
                eng\<lparr>objects := objs, nodesRef := newNodesMap,
                    simulationRef := Some (sim\<lparr>sim_nodes := physicsNodes,
                                              sim_links := physicsEdges newNodesMap es,
                                              sim_center := (cw / 2, ch / 2),
                                              sim_alpha := alpha_start,
                                              sim_timer := (if \<not> isRunningRef eng then True
                                                            else sim_timer sim)\<rparr>),
                    isRunningRef := True\<rparr>)))"

text \<open>The cleanup the effect returns; React runs it before the effect runs again.\<close>

definition cleanup :: "Engine \<Rightarrow> Engine" where
  "cleanup eng = stopSimulation eng"

definition pause :: "Engine \<Rightarrow> Engine" where
  "pause eng = stopSimulation eng"

definition resume :: "bool \<Rightarrow> Engine \<Rightarrow> Engine" where
  "resume enabled eng =
     (case simulationRef eng of
        None \<Rightarrow> eng
      | Some sim \<Rightarrow>
          if enabled then eng\<lparr>simulationRef := Some (sim\<lparr>sim_timer := True\<rparr>), isRunningRef := True\<rparr>
          else eng)"

definition reheat :: "Engine \<Rightarrow> Engine" where
  "reheat eng =
     (case simulationRef eng of
        None \<Rightarrow> eng
      | Some sim \<Rightarrow>
          eng\<lparr>simulationRef := Some (sim\<lparr>sim_alpha := alpha_start,
                                          sim_timer := (if \<not> isRunningRef eng then True
                                                        else sim_timer sim)\<rparr>),
              isRunningRef := True\<rparr>)"

definition setNodeVelocity :: "string \<Rightarrow> real \<Rightarrow> real \<Rightarrow> Engine \<Rightarrow> Engine" where
  "setNodeVelocity nodeId vx vy eng =
     (case nodesRef eng nodeId of
        None \<Rightarrow> eng
      | Some a \<Rightarrow>
          (case simulationRef eng of
             None \<Rightarrow> eng
           | Some sim \<Rightarrow>
               reheat (eng\<lparr>objects := (objects eng)[a := (objects eng ! a)\<lparr>p_vx := vx, p_vy := vy\<rparr>]\<rparr>)))"

definition setNodePosition :: "string \<Rightarrow> real \<Rightarrow> real \<Rightarrow> Engine \<Rightarrow> Engine" where
  "setNodePosition nodeId x y eng =
     (case nodesRef eng nodeId of
        None \<Rightarrow> eng
      | Some a \<Rightarrow>
          (case simulationRef eng of
             None \<Rightarrow> eng
           | Some sim \<Rightarrow>
               eng\<lparr>objects := (objects eng)[a := (objects eng ! a)\<lparr>p_x := x, p_y := y,
                                                                    p_vx := 0, p_vy := 0\<rparr>]\<rparr>))"

text \<open>
  The invariant of the object store that JavaScript gives for free: every reference in
  the map points at an object, and different keys hold different objects.
\<close>

definition wf_engine :: "Engine \<Rightarrow> bool" where
  "wf_engine eng \<longleftrightarrow>
     (\<forall>i a. nodesRef eng i = Some a \<longrightarrow> a < length (objects eng)) \<and>
     (\<forall>i j a. nodesRef eng i = Some a \<longrightarrow> nodesRef eng j = Some a \<longrightarrow> i = j)"

subsection \<open>One tick of the simulation\<close>

text \<open>
  Modelled from the spec: the tick itself runs inside the d3-force library, which is not
  part of the sources. The specification's per-tick algorithm, steps 5 and 6: "Integrate:
  velocity += netForce, position += velocity; nodes whose pinned position is set [...]
  hold exactly at the pinned coordinates with zero velocity", then "Decay
  alpha *= (1 - alphaDecay); if alpha < alphaMin, clamp to alphaMin and transition to
  cooling". The pinned position is the pair \<open>fx\<close>, \<open>fy\<close> of the physics node, each
  coordinate on its own. The net force of steps 1 to 4 is the parameter \<open>force\<close>: for the
  engine state before the tick and the address of a node, the velocity increment of that
  node.
\<close>

definition integrate :: "real \<times> real \<Rightarrow> PhysicsNode \<Rightarrow> PhysicsNode" where
  "integrate f node =
     (let vx' = (case p_fx node of Some _ \<Rightarrow> 0 | None \<Rightarrow> p_vx node + fst f);
          vy' = (case p_fy node of Some _ \<Rightarrow> 0 | None \<Rightarrow> p_vy node + snd f)
      in node\<lparr>p_x := (case p_fx node of Some fx \<Rightarrow> fx | None \<Rightarrow> p_x node + vx'),
              p_y := (case p_fy node of Some fy \<Rightarrow> fy | None \<Rightarrow> p_y node + vy'),
              p_vx := vx', p_vy := vy'\<rparr>)"

text \<open>
  Modelled from the spec: step 6 of the per-tick algorithm, which d3-force carries out;
  "cooling" stops the timer.
\<close>

definition decay :: "Simulation \<Rightarrow> Simulation" where
  "decay sim =
     (let a = sim_alpha sim * (1 - sim_alphaDecay sim)
      in if a < sim_alphaMin sim
         then sim\<lparr>sim_alpha := sim_alphaMin sim, sim_timer := False\<rparr>
         else sim\<lparr>sim_alpha := a\<rparr>)"

text \<open>
  Modelled from the spec: one tick, which d3-force carries out. Every node of the
  simulation's node array is integrated in turn under the force computed from the state
  before the tick, then alpha decays.
\<close>

definition tick :: "(Engine \<Rightarrow> nat \<Rightarrow> real \<times> real) \<Rightarrow> Engine \<Rightarrow> Engine" where
  "tick force eng =
     (case simulationRef eng of
        None \<Rightarrow> eng
      | Some sim \<Rightarrow>
          eng\<lparr>objects := fold (\<lambda>a objs. objs[a := integrate (force eng a) (objs ! a)])
                             (sim_nodes sim) (objects eng),
              simulationRef := Some (decay sim)\<rparr>)"

text \<open>A node that sits at \<open>(X, Y)\<close> with zero velocity.\<close>

definition held :: "real \<Rightarrow> real \<Rightarrow> PhysicsNode \<Rightarrow> bool" where
  "held X Y p \<longleftrightarrow> p_x p = X \<and> p_y p = Y \<and> p_vx p = 0 \<and> p_vy p = 0"

text \<open>
  Modelled from the spec: step 4 of the per-tick algorithm, "a weak centering force pulling
  every non-pinned node toward the viewport center, scaled by alpha", read as a linear pull
  of strength \<open>PHYSICS_CONFIG.forceCenter.strength\<close>. It serves as one concrete force
  field for the examples; the general theorems hold for every force.
\<close>

definition centering :: "Engine \<Rightarrow> nat \<Rightarrow> real \<times> real" where
  "centering eng a =
     (case simulationRef eng of
        None \<Rightarrow> (0, 0)
      | Some sim \<Rightarrow>
          (forceCenter_strength * sim_alpha sim * (fst (sim_center sim) - p_x (objects eng ! a)),
           forceCenter_strength * sim_alpha sim * (snd (sim_center sim) - p_y (objects eng ! a))))"

section \<open>The canvas component (src/components/canvas/IdeaCanvas.tsx)\<close>

text \<open>
  The component owns the store, the layout hook and its local pan state. The label of a
  spawned node is the UTF-8 text of the source's string literal.
\<close>

record App =
  store :: IdeaState
  engine :: Engine
  isPanning :: bool
  lastPanPoint :: Point
  isSpacePressed :: bool

definition newIdeaText :: string where
  "newIdeaText = [CHR 0xE6, CHR 0x96, CHR 0xB0, CHR 0xE6, CHR 0x83, CHR 0xB3,
                  CHR 0xE6, CHR 0xB3, CHR 0x95]"

definition spawnNodeData :: "SpawnResult \<Rightarrow> NodeData" where
  "spawnNodeData result =
     \<lparr>d_text = newIdeaText, d_x = r_x result, d_y = r_y result,
      d_status = Some SEED, d_radius = Some 30, d_energy = Some (1 / 2),
      d_color = None, d_parentId = Some (r_sourceNodeId result)\<rparr>"

text \<open>\<open>handleMouseMove\<close> at the pointer position \<open>pos\<close> (screen coordinates).\<close>

definition handleMouseMove :: "Point \<Rightarrow> App \<Rightarrow> App" where
  "handleMouseMove pos app =
     (if isPanning app then
        app\<lparr>store := pan (pt_x pos - pt_x (lastPanPoint app)) (pt_y pos - pt_y (lastPanPoint app))
                        (store app),
            lastPanPoint := pos\<rparr>
      else if isDragging (dragSpawn (store app)) then
        (let worldPos = screenToWorld (camera (store app)) (pt_x pos, pt_y pos)
         in app\<lparr>store := updateDragSpawn (fst worldPos) (snd worldPos) (store app)\<rparr>)
      else app)"

text \<open>
  \<open>handleMouseUp\<close>; \<open>envN\<close> and \<open>envE\<close> are what \<open>addNode\<close> and \<open>addEdge\<close> draw from the clock
  and the random source.
\<close>

definition handleMouseUp :: "Env \<Rightarrow> Env \<Rightarrow> App \<Rightarrow> App" where
  "handleMouseUp envN envE app =
     (if isPanning app then app\<lparr>isPanning := False\<rparr>
      else if isDragging (dragSpawn (store app)) then
        (case endDragSpawn (store app) of
           (None, st) \<Rightarrow> app\<lparr>store := st\<rparr>
         | (Some result, st) \<Rightarrow>
             (case addNode envN (spawnNodeData result) st of (newNodeId, st1) \<Rightarrow>
                (case addEdge envE (r_sourceNodeId result) newNodeId DERIVE st1 of (edgeId, st2) \<Rightarrow>
                   app\<lparr>store := st2, engine := reheat (engine app)\<rparr>)))
      else app)"

section \<open>Example states\<close>

definition store0 :: IdeaState where
  "store0 = \<lparr>nodes = [], edges = [],
             camera = \<lparr>scale = 1, offsetX = 0, offsetY = 0\<rparr>,
             dragSpawn = idleDragSpawn,
             selectedNodeId = None, editingNodeId = None,
             canvasWidth = 800, canvasHeight = 600\<rparr>"

definition env1 :: Env where
  "env1 = \<lparr>env_idNow = ''1700000000000'', env_idRnd = ''k3j9x0q1z'',
           env_colorRnd = 1 / 4, env_createdAt = 1700000000000\<rparr>"

definition env2 :: Env where
  "env2 = \<lparr>env_idNow = ''1700000000001'', env_idRnd = ''a8b7c6d5e'',
           env_colorRnd = 3 / 4, env_createdAt = 1700000000001\<rparr>"

definition nodeA :: IdeaNode where
  "nodeA = \<lparr>n_id = ''a'', n_parentId = None, n_text = ''A'', n_status = FLOWERING,
            n_x = 0, n_y = 0, n_radius = 45, n_energy = 4 / 5, n_color = ''#6B30FF'',
            n_createdAt = 0\<rparr>"

definition nodeB :: IdeaNode where
  "nodeB = \<lparr>n_id = ''b'', n_parentId = Some ''a'', n_text = ''B'', n_status = FRUIT,
            n_x = 100, n_y = 50, n_radius = 30, n_energy = 1 / 2, n_color = ''#2895F7'',
            n_createdAt = 1\<rparr>"

definition edgeAB :: IdeaEdge where
  "edgeAB = \<lparr>e_id = ''e1'', e_sourceId = ''a'', e_targetId = ''b'', e_type = DERIVE\<rparr>"

definition edgeAX :: IdeaEdge where
  "edgeAX = \<lparr>e_id = ''e2'', e_sourceId = ''a'', e_targetId = ''x'', e_type = DERIVE\<rparr>"

definition store1 :: IdeaState where
  "store1 = store0\<lparr>nodes := [nodeA, nodeB], edges := [edgeAB, edgeAX],
                  selectedNodeId := Some ''b''\<rparr>"

definition app0 :: App where
  "app0 = \<lparr>store = store0, engine = engine0, isPanning = False,
           lastPanPoint = \<lparr>pt_x = 0, pt_y = 0\<rparr>, isSpacePressed = False\<rparr>"

definition nodeC :: IdeaNode where
  "nodeC = \<lparr>n_id = ''c'', n_parentId = Some ''a'', n_text = ''C'', n_status = SEED,
            n_x = 7, n_y = 8, n_radius = 30, n_energy = 1 / 2, n_color = ''#00C853'',
            n_createdAt = 2\<rparr>"

definition engine1 :: Engine where
  "engine1 = syncSimulation True [nodeA, nodeB] [edgeAB, edgeAX] 800 600 engine0"

definition engine1v :: Engine where
  "engine1v = setNodeVelocity ''a'' 2 3 engine1"

definition engine2 :: Engine where
  "engine2 = syncSimulation True [nodeA\<lparr>n_x := 5, n_y := 6\<rparr>, nodeC] [edgeAB, edgeAX] 800 600 engine1v"

definition sim1 :: Simulation where
  "sim1 = \<lparr>sim_nodes = [0, 1], sim_links = [\<lparr>pe_source = ''a'', pe_target = ''b''\<rparr>],
           sim_center = (400, 300), sim_alpha = 1, sim_alphaMin = 1 / 1000,
           sim_alphaDecay = 2 / 100, sim_timer = True\<rparr>"

definition engine1d :: Engine where
  "engine1d = setNodePosition ''a'' 50 60 engine1"

definition engine1t :: Engine where
  "engine1t = tick centering engine1d"

section \<open>Camera: pivot-preserving zoom\<close>

lemma zoom_camera:
  "camera (zoom factor centerX centerY state) =
     \<lparr>scale = max (1 / 10) (min 5 (scale (camera state) * factor)),
      offsetX = (case centerX of Some c \<Rightarrow> c | None \<Rightarrow> canvasWidth state / 2)
                - ((case centerX of Some c \<Rightarrow> c | None \<Rightarrow> canvasWidth state / 2)
                   - offsetX (camera state))
                  * (max (1 / 10) (min 5 (scale (camera state) * factor)) / scale (camera state)),
      offsetY = (case centerY of Some c \<Rightarrow> c | None \<Rightarrow> canvasHeight state / 2)
                - ((case centerY of Some c \<Rightarrow> c | None \<Rightarrow> canvasHeight state / 2)
                   - offsetY (camera state))
                  * (max (1 / 10) (min 5 (scale (camera state) * factor)) / scale (camera state))\<rparr>"
  by (simp add: zoom_def Let_def)

lemma pivot_fixed:
  fixes c off s s' :: real
  assumes "s \<noteq> 0"
  shows "(c - off) / s * s' + (c - (c - off) * (s' / s)) = c"
  using assms by (simp add: field_simps)

text \<open>
  C3. For a camera whose scale lies in \<open>[0.1, 5]\<close>, any factor and any pivot, \<open>zoom\<close> sets
  the scale to \<open>clamp(scale * factor, 0.1, 5)\<close> and the offset to
  \<open>pivot - (pivot - offset) * (scale'/scale)\<close>; the world point under the pivot is drawn
  at the pivot before and after the zoom. A pivot coordinate that is not given is the
  viewport centre.
\<close>

theorem zoom_pivot_preserving:
  assumes "1 / 10 \<le> scale (camera state)" and "scale (camera state) \<le> 5"
  shows "let cam = camera state;
             cam' = camera (zoom factor centerX centerY state);
             cx = (case centerX of Some c \<Rightarrow> c | None \<Rightarrow> canvasWidth state / 2);
             cy = (case centerY of Some c \<Rightarrow> c | None \<Rightarrow> canvasHeight state / 2)
         in scale cam' = max (1 / 10) (min 5 (scale cam * factor))
            \<and> offsetX cam' = cx - (cx - offsetX cam) * (scale cam' / scale cam)
            \<and> offsetY cam' = cy - (cy - offsetY cam) * (scale cam' / scale cam)
            \<and> worldToScreen cam (screenToWorld cam (cx, cy)) = (cx, cy)
            \<and> worldToScreen cam' (screenToWorld cam (cx, cy)) = (cx, cy)"
proof -
  have nz: "scale (camera state) \<noteq> 0"
    using assms(1) by auto
  show ?thesis
    unfolding Let_def zoom_camera worldToScreen_def screenToWorld_def
    using nz by (simp add: pivot_fixed)
qed

theorem zoom_pivot_preserving_witness:
  "(1 / 10 \<le> scale (camera (store0\<lparr>camera := \<lparr>scale = 2, offsetX = 10, offsetY = 20\<rparr>\<rparr>))
    \<and> scale (camera (store0\<lparr>camera := \<lparr>scale = 2, offsetX = 10, offsetY = 20\<rparr>\<rparr>)) \<le> 5)
   \<and> camera (zoom 3 (Some 100) None (store0\<lparr>camera := \<lparr>scale = 2, offsetX = 10, offsetY = 20\<rparr>\<rparr>))
       = \<lparr>scale = 5, offsetX = - 125, offsetY = - 400\<rparr>
   \<and> worldToScreen (camera (zoom 3 (Some 100) None (store0\<lparr>camera := \<lparr>scale = 2, offsetX = 10, offsetY = 20\<rparr>\<rparr>)))
        (screenToWorld \<lparr>scale = 2, offsetX = 10, offsetY = 20\<rparr> (100, 300)) = (100, 300)"
  using zoom_pivot_preserving [of "store0\<lparr>camera := \<lparr>scale = 2, offsetX = 10, offsetY = 20\<rparr>\<rparr>" 3 "Some 100" None]
  by (simp add: store0_def Let_def zoom_camera)

section \<open>Store: adding and removing nodes\<close>

text \<open>
  C10. After \<open>removeNode(id)\<close> no node has that id, no edge starts or ends at it, the
  selection is cleared if it was that node and kept otherwise; the remaining nodes and
  edges are the old ones in their old order, and the camera, the drag-spawn state, the
  edited node and the canvas size are unchanged.
\<close>

theorem removeNode_spec:
  "let state' = removeNode ident state
   in (\<forall>n \<in> set (nodes state'). n_id n \<noteq> ident)
      \<and> (\<forall>e \<in> set (edges state'). e_sourceId e \<noteq> ident \<and> e_targetId e \<noteq> ident)
      \<and> (selectedNodeId state = Some ident \<longrightarrow> selectedNodeId state' = None)
      \<and> (selectedNodeId state \<noteq> Some ident \<longrightarrow> selectedNodeId state' = selectedNodeId state)
      \<and> nodes state' = filter (\<lambda>n. n_id n \<noteq> ident) (nodes state)
      \<and> edges state' = filter (\<lambda>e. e_sourceId e \<noteq> ident \<and> e_targetId e \<noteq> ident) (edges state)
      \<and> camera state' = camera state
      \<and> dragSpawn state' = dragSpawn state
      \<and> editingNodeId state' = editingNodeId state
      \<and> canvasWidth state' = canvasWidth state
      \<and> canvasHeight state' = canvasHeight state"
  by (simp add: removeNode_def Let_def)

theorem removeNode_spec_witness:
  "nodes (removeNode ''b'' store1) = [nodeA]
   \<and> edges (removeNode ''b'' store1) = [edgeAX]
   \<and> selectedNodeId store1 = Some ''b''
   \<and> selectedNodeId (removeNode ''b'' store1) = None
   \<and> camera (removeNode ''b'' store1) = camera store1"
  using removeNode_spec [of "''b''" store1]
  by (simp add: Let_def store1_def store0_def nodeA_def nodeB_def edgeAB_def edgeAX_def)

lemma getRandomColor_theme:
  assumes "0 \<le> r" and "r < 1"
  shows "getRandomColor r \<in> set NODE_COLORS"
proof -
  have len: "length NODE_COLORS = 8"
    by (simp add: NODE_COLORS_def)
  have "0 \<le> \<lfloor>r * 8\<rfloor>" and "\<lfloor>r * 8\<rfloor> < 8"
    using assms by (simp_all add: floor_less_iff)
  then have "nat \<lfloor>r * 8\<rfloor> < length NODE_COLORS"
    using len by linarith
  then show ?thesis
    unfolding getRandomColor_def len by (simp add: len)
qed

text \<open>
  C9. \<open>addNode\<close> appends one node and takes its defaults for falsy values as well as for
  absent ones: radius \<open>0\<close> gives radius \<open>35\<close>, energy \<open>0\<close> gives energy \<open>0.5\<close>, and the empty
  colour gives the random colour, which is one of the theme colours for every value
  \<open>Math.random()\<close> can return.
\<close>

theorem addNode_falsy_defaults:
  "let result = addNode env nodeData state;
       node = last (nodes (snd result))
   in nodes (snd result) = nodes state @ [node]
      \<and> n_id node = fst result
      \<and> (d_radius nodeData = None \<or> d_radius nodeData = Some 0 \<longrightarrow> n_radius node = 35)
      \<and> (d_energy nodeData = None \<or> d_energy nodeData = Some 0 \<longrightarrow> n_energy node = 1 / 2)
      \<and> (d_color nodeData = None \<or> d_color nodeData = Some [] \<longrightarrow>
           n_color node = getRandomColor (env_colorRnd env))
      \<and> (0 \<le> env_colorRnd env \<and> env_colorRnd env < 1 \<longrightarrow>
           getRandomColor (env_colorRnd env) \<in> set NODE_COLORS)"
  using getRandomColor_theme [of "env_colorRnd env"]
  by (auto simp: addNode_def Let_def or_number_def or_string_def)

theorem addNode_falsy_defaults_witness:
  "n_radius (last (nodes (snd (addNode env1
       \<lparr>d_text = ''t'', d_x = 1, d_y = 2, d_status = None, d_radius = Some 0,
        d_energy = Some 0, d_color = Some [], d_parentId = None\<rparr> store0)))) = 35
   \<and> n_energy (last (nodes (snd (addNode env1
       \<lparr>d_text = ''t'', d_x = 1, d_y = 2, d_status = None, d_radius = Some 0,
        d_energy = Some 0, d_color = Some [], d_parentId = None\<rparr> store0)))) = 1 / 2
   \<and> n_color (last (nodes (snd (addNode env1
       \<lparr>d_text = ''t'', d_x = 1, d_y = 2, d_status = None, d_radius = Some 0,
        d_energy = Some 0, d_color = Some [], d_parentId = None\<rparr> store0)))) = ''#A78BFF''
   \<and> ''#A78BFF'' \<in> set NODE_COLORS"
  using addNode_falsy_defaults [of env1
       "\<lparr>d_text = ''t'', d_x = 1, d_y = 2, d_status = None, d_radius = Some 0,
         d_energy = Some 0, d_color = Some [], d_parentId = None\<rparr>" store0]
  by (simp add: Let_def env1_def getRandomColor_def NODE_COLORS_def)

section \<open>Geometry: the edge anchor point\<close>

lemma sqrt_one_plus_ratio:
  fixes x y :: real
  assumes "x \<noteq> 0"
  shows "sqrt (1 + (y / x)\<^sup>2) = sqrt (x\<^sup>2 + y\<^sup>2) / \<bar>x\<bar>"
proof -
  have "1 + (y / x)\<^sup>2 = (x\<^sup>2 + y\<^sup>2) / x\<^sup>2"
    using assms by (simp add: field_simps power2_eq_square)
  then show ?thesis
    by (simp add: real_sqrt_divide)
qed

lemma cos_atan2:
  assumes "x \<noteq> 0 \<or> y \<noteq> 0"
  shows "cos (atan2 y x) = x / sqrt (x\<^sup>2 + y\<^sup>2)"
proof -
  consider "0 < x" | "x < 0" | "x = 0" "y \<noteq> 0"
    using assms by fastforce
  then show ?thesis
  proof cases
    case 1
    then show ?thesis
      by (simp add: atan2_def cos_arctan sqrt_one_plus_ratio)
  next
    case 2
    then show ?thesis
      by (simp add: atan2_def cos_arctan sqrt_one_plus_ratio)
  next
    case 3
    then show ?thesis
      by (simp add: atan2_def)
  qed
qed

lemma sin_atan2:
  assumes "x \<noteq> 0 \<or> y \<noteq> 0"
  shows "sin (atan2 y x) = y / sqrt (x\<^sup>2 + y\<^sup>2)"
proof -
  consider "0 < x" | "x < 0" | "x = 0" "0 < y" | "x = 0" "y < 0"
    using assms by fastforce
  then show ?thesis
  proof cases
    case 1
    then show ?thesis
      by (simp add: atan2_def sin_arctan sqrt_one_plus_ratio)
  next
    case 2
    then show ?thesis
      by (simp add: atan2_def sin_arctan sqrt_one_plus_ratio)
  next
    case 3
    then show ?thesis
      by (simp add: atan2_def)
  next
    case 4
    then show ?thesis
      by (simp add: atan2_def)
  qed
qed

text \<open>
  C8. For a positive radius and a target other than the centre, \<open>getEdgePoint\<close> returns the
  point at distance \<open>fromRadius\<close> from the centre on the ray towards the target: it is
  \<open>centre + t * (target - centre)\<close> with \<open>t = fromRadius / distance > 0\<close>.
\<close>

theorem getEdgePoint_on_circle:
  assumes "0 < fromRadius" and "toX \<noteq> fromX \<or> toY \<noteq> fromY"
  shows "let p = getEdgePoint fromX fromY fromRadius toX toY;
             d = sqrt ((toX - fromX)\<^sup>2 + (toY - fromY)\<^sup>2);
             t = fromRadius / d
         in sqrt ((pt_x p - fromX)\<^sup>2 + (pt_y p - fromY)\<^sup>2) = fromRadius
            \<and> 0 < t
            \<and> pt_x p = fromX + t * (toX - fromX)
            \<and> pt_y p = fromY + t * (toY - fromY)"
proof -
  define dx where "dx = toX - fromX"
  define dy where "dy = toY - fromY"
  define d where "d = sqrt (dx\<^sup>2 + dy\<^sup>2)"
  have nz: "dx \<noteq> 0 \<or> dy \<noteq> 0"
    using assms(2) by (simp add: dx_def dy_def)
  have dpos: "0 < d"
    unfolding d_def using nz by (auto simp: sum_power2_gt_zero_iff)
  have c: "cos (atan2 dy dx) = dx / d" and s: "sin (atan2 dy dx) = dy / d"
    using nz by (simp_all add: cos_atan2 sin_atan2 d_def)
  have "(dx / d * fromRadius)\<^sup>2 + (dy / d * fromRadius)\<^sup>2 = fromRadius\<^sup>2 * ((dx\<^sup>2 + dy\<^sup>2) / d\<^sup>2)"
    by (simp add: power_mult_distrib power_divide add_divide_distrib algebra_simps)
  also have "dx\<^sup>2 + dy\<^sup>2 = d\<^sup>2"
    by (simp add: d_def)
  finally have "(dx / d * fromRadius)\<^sup>2 + (dy / d * fromRadius)\<^sup>2 = fromRadius\<^sup>2"
    using dpos by simp
  then have dist: "sqrt ((dx / d * fromRadius)\<^sup>2 + (dy / d * fromRadius)\<^sup>2) = fromRadius"
    using assms(1) by simp
  show ?thesis
    using dist dpos assms(1) c s
    by (simp add: getEdgePoint_def Let_def dx_def [symmetric] dy_def [symmetric] d_def [symmetric])
qed

theorem getEdgePoint_on_circle_witness:
  "(0::real) < 5 \<and> (3::real, 4::real) \<noteq> (0, 0)
   \<and> sqrt ((pt_x (getEdgePoint 0 0 5 3 4) - 0)\<^sup>2 + (pt_y (getEdgePoint 0 0 5 3 4) - 0)\<^sup>2) = 5
   \<and> pt_x (getEdgePoint 0 0 5 3 4) = 3 \<and> pt_y (getEdgePoint 0 0 5 3 4) = 4"
proof -
  have "sqrt 25 = (5::real)"
    by (rule real_sqrt_unique) simp_all
  then show ?thesis
    using getEdgePoint_on_circle [of 5 3 0 4 0]
    by (simp add: Let_def)
qed

section \<open>The spawn gesture\<close>

text \<open>
  C6, as stated, fails in two places the code guards explicitly. While a pan is in
  progress \<open>handleMouseUp\<close> only ends the pan and returns, so an active spawn gesture stays
  active and nothing is spawned; and \<open>endDragSpawn\<close> treats an empty source id like \<open>null\<close>:
  it returns \<open>null\<close> and leaves \<open>isDragging\<close> set.
\<close>

theorem spawn_pointer_up_counterexample:
  "(isDragging (dragSpawn (store (app0\<lparr>store := startDragSpawn ''a'' 3 4 store0, isPanning := True\<rparr>)))
    \<and> nodes (store (handleMouseUp env1 env2
          (app0\<lparr>store := startDragSpawn ''a'' 3 4 store0, isPanning := True\<rparr>))) = []
    \<and> isDragging (dragSpawn (store (handleMouseUp env1 env2
          (app0\<lparr>store := startDragSpawn ''a'' 3 4 store0, isPanning := True\<rparr>)))))
   \<and> (isDragging (dragSpawn (startDragSpawn [] 3 4 store0))
    \<and> fst (endDragSpawn (startDragSpawn [] 3 4 store0)) = None
    \<and> isDragging (dragSpawn (snd (endDragSpawn (startDragSpawn [] 3 4 store0))))
    \<and> nodes (store (handleMouseUp env1 env2 (app0\<lparr>store := startDragSpawn [] 3 4 store0\<rparr>))) = [])"
  by (simp add: handleMouseUp_def endDragSpawn_def startDragSpawn_def app0_def store0_def
      Let_def)

lemma endDragSpawn_active:
  assumes "isDragging (dragSpawn state)" and "sourceNodeId (dragSpawn state) = Some src"
    and "src \<noteq> []"
  shows "endDragSpawn state =
           (Some \<lparr>r_x = currentX (dragSpawn state), r_y = currentY (dragSpawn state),
                  r_sourceNodeId = src\<rparr>,
            state\<lparr>dragSpawn := idleDragSpawn\<rparr>)"
  using assms by (simp add: endDragSpawn_def Let_def)

lemma endDragSpawn_idle:
  "dragSpawn state = idleDragSpawn \<Longrightarrow> endDragSpawn state = (None, state)"
  by (simp add: endDragSpawn_def idleDragSpawn_def Let_def)

text \<open>
  C6, amended. For an active spawn gesture started from a node with a non-empty id, and
  with no pan in progress: a pointer move sets the current point to the world point under
  the pointer; \<open>endDragSpawn\<close> returns \<open>{sourceNodeId, x, y}\<close> with the current point and
  resets the drag-spawn state, and a second call returns \<open>null\<close>; \<open>handleMouseUp\<close> appends
  exactly one node, at the current point and with the source as parent, and one edge from
  the source to it, leaves \<open>isDragging = false\<close>, and a further pointer-up changes nothing.
  No distance between start and release is required.
\<close>

theorem spawn_pointer_up:
  assumes "isDragging (dragSpawn (store app))"
    and "sourceNodeId (dragSpawn (store app)) = Some src"
    and "src \<noteq> []"
    and "\<not> isPanning app"
  shows "let ds = dragSpawn (store app);
             app' = handleMouseUp envN envE app;
             newId = generateId (env_idNow envN) (env_idRnd envN)
         in dragSpawn (store (handleMouseMove pos app)) =
              ds\<lparr>currentX := fst (screenToWorld (camera (store app)) (pt_x pos, pt_y pos)),
                 currentY := snd (screenToWorld (camera (store app)) (pt_x pos, pt_y pos))\<rparr>
            \<and> endDragSpawn (store app) =
              (Some \<lparr>r_x = currentX ds, r_y = currentY ds, r_sourceNodeId = src\<rparr>,
               (store app)\<lparr>dragSpawn := idleDragSpawn\<rparr>)
            \<and> fst (endDragSpawn (snd (endDragSpawn (store app)))) = None
            \<and> dragSpawn (store app') = idleDragSpawn
            \<and> \<not> isDragging (dragSpawn (store app'))
            \<and> (\<exists>n. nodes (store app') = nodes (store app) @ [n] \<and> n_id n = newId
                    \<and> n_x n = currentX ds \<and> n_y n = currentY ds \<and> n_parentId n = Some src)
            \<and> (\<exists>e. edges (store app') = edges (store app) @ [e]
                    \<and> e_sourceId e = src \<and> e_targetId e = newId)
            \<and> handleMouseUp envN envE app' = app'"
proof -
  note e = endDragSpawn_active [OF assms(1-3)]
  have idle: "\<not> isDragging idleDragSpawn"
    by (simp add: idleDragSpawn_def)
  show ?thesis
    using assms(1,4) idle
    by (simp add: Let_def e handleMouseUp_def addNode_def addEdge_def spawnNodeData_def
        endDragSpawn_idle handleMouseMove_def updateDragSpawn_def)
qed

theorem spawn_pointer_up_witness:
  "isDragging (dragSpawn (store (app0\<lparr>store := startDragSpawn ''a'' 3 4 store0\<rparr>)))
   \<and> sourceNodeId (dragSpawn (store (app0\<lparr>store := startDragSpawn ''a'' 3 4 store0\<rparr>))) = Some ''a''
   \<and> ''a'' \<noteq> []
   \<and> \<not> isPanning (app0\<lparr>store := startDragSpawn ''a'' 3 4 store0\<rparr>)
   \<and> fst (endDragSpawn (startDragSpawn ''a'' 3 4 store0))
       = Some \<lparr>r_x = 3, r_y = 4, r_sourceNodeId = ''a''\<rparr>
   \<and> \<not> isDragging (dragSpawn (store (handleMouseUp env1 env2
          (app0\<lparr>store := startDragSpawn ''a'' 3 4 store0\<rparr>))))
   \<and> map n_x (nodes (store (handleMouseUp env1 env2
          (app0\<lparr>store := startDragSpawn ''a'' 3 4 store0\<rparr>)))) = [3]
   \<and> map n_y (nodes (store (handleMouseUp env1 env2
          (app0\<lparr>store := startDragSpawn ''a'' 3 4 store0\<rparr>)))) = [4]"
  using spawn_pointer_up [where app = "app0\<lparr>store := startDragSpawn ''a'' 3 4 store0\<rparr>"
      and src = "''a''" and envN = env1 and envE = env2 and pos = "\<lparr>pt_x = 0, pt_y = 0\<rparr>"]
  by (auto simp: Let_def startDragSpawn_def app0_def store0_def)

section \<open>Reconciling the shadow nodes\<close>

lemma reconcileNode_Some:
  "old (n_id n) = Some a \<Longrightarrow>
   reconcileNode old n (h, m, ps) =
     (h[a := updateExisting n (h ! a)], m(n_id n \<mapsto> a), ps @ [a])"
  by (simp add: reconcileNode_def)

lemma reconcileNode_None:
  "old (n_id n) = None \<Longrightarrow>
   reconcileNode old n (h, m, ps) =
     (h @ [convertToPhysicsNode n], m(n_id n \<mapsto> length h), ps @ [length h])"
  by (simp add: reconcileNode_def)

lemma updateExisting_idem: "updateExisting n (updateExisting n p) = updateExisting n p"
  by (simp add: updateExisting_def)

lemma updateExisting_convert: "updateExisting n (convertToPhysicsNode n) = convertToPhysicsNode n"
  by (simp add: updateExisting_def convertToPhysicsNode_def)

lemma updateExisting_velocity:
  "p_vx (updateExisting n p) = p_vx p" "p_vy (updateExisting n p) = p_vy p"
  "p_id (updateExisting n p) = p_id p"
  "p_x (updateExisting n p) = n_x n" "p_y (updateExisting n p) = n_y n"
  by (simp_all add: updateExisting_def)

lemma pass_length:
  "fold (reconcileNode old) N (h, m, ps) = (h', m', ps') \<Longrightarrow> length h \<le> length h'"
proof (induction N arbitrary: h m ps)
  case Nil
  then show ?case by simp
next
  case (Cons n N)
  show ?case
  proof (cases "old (n_id n)")
    case None
    with Cons.prems have "fold (reconcileNode old) N
        (h @ [convertToPhysicsNode n], m(n_id n \<mapsto> length h), ps @ [length h]) = (h', m', ps')"
      by (simp add: reconcileNode_None)
    from Cons.IH [OF this] show ?thesis by simp
  next
    case (Some a)
    with Cons.prems have "fold (reconcileNode old) N
        (h[a := updateExisting n (h ! a)], m(n_id n \<mapsto> a), ps @ [a]) = (h', m', ps')"
      by (simp add: reconcileNode_Some)
    from Cons.IH [OF this] show ?thesis by simp
  qed
qed

lemma pass_untouched:
  "fold (reconcileNode old) N (h, m, ps) = (h', m', ps') \<Longrightarrow> a < length h \<Longrightarrow>
   \<forall>n \<in> set N. old (n_id n) \<noteq> Some a \<Longrightarrow> h' ! a = h ! a"
proof (induction N arbitrary: h m ps)
  case Nil
  then show ?case by simp
next
  case (Cons n N)
  show ?case
  proof (cases "old (n_id n)")
    case None
    with Cons.prems(1) have "fold (reconcileNode old) N
        (h @ [convertToPhysicsNode n], m(n_id n \<mapsto> length h), ps @ [length h]) = (h', m', ps')"
      by (simp add: reconcileNode_None)
    from Cons.IH [OF this] Cons.prems(2,3) show ?thesis
      by (simp add: nth_append)
  next
    case (Some b)
    with Cons.prems(1) have "fold (reconcileNode old) N
        (h[b := updateExisting n (h ! b)], m(n_id n \<mapsto> b), ps @ [b]) = (h', m', ps')"
      by (simp add: reconcileNode_Some)
    from Cons.IH [OF this] Cons.prems(2,3)
    have "h' ! a = h[b := updateExisting n (h ! b)] ! a"
      by simp
    moreover have "b \<noteq> a"
      using Some Cons.prems(3) by auto
    ultimately show ?thesis
      by simp
  qed
qed

lemma pass_map_other:
  "fold (reconcileNode old) N (h, m, ps) = (h', m', ps') \<Longrightarrow> i \<notin> n_id ` set N \<Longrightarrow> m' i = m i"
proof (induction N arbitrary: h m ps)
  case Nil
  then show ?case by simp
next
  case (Cons n N)
  then show ?case
    by (cases "old (n_id n)") (auto simp: reconcileNode_Some reconcileNode_None)
qed

lemma pass_map_dom:
  "fold (reconcileNode old) N (h, m, ps) = (h', m', ps') \<Longrightarrow> i \<in> n_id ` set N \<Longrightarrow> m' i \<noteq> None"
proof (induction N arbitrary: h m ps)
  case Nil
  then show ?case by simp
next
  case (Cons n N)
  show ?case
  proof (cases "i \<in> n_id ` set N")
    case True
    with Cons show ?thesis
      by (cases "old (n_id n)") (auto simp: reconcileNode_Some reconcileNode_None)
  next
    case False
    then have i: "i = n_id n"
      using Cons.prems(2) by auto
    obtain acc where acc: "reconcileNode old n (h, m, ps) = acc" by simp
    obtain h1 m1 ps1 where a1: "acc = (h1, m1, ps1)" by (cases acc)
    have "m1 i \<noteq> None"
      using acc a1 i by (cases "old (n_id n)") (auto simp: reconcileNode_Some reconcileNode_None)
    moreover have "m' i = m1 i"
      using pass_map_other [of old N h1 m1 ps1 h' m' ps' i] Cons.prems(1) acc a1 False by simp
    ultimately show ?thesis by simp
  qed
qed


lemma pass_node:
  assumes "fold (reconcileNode old) N (h, m, ps) = (h', m', ps')"
    and "distinct (map n_id N)"
    and "\<forall>i a. old i = Some a \<longrightarrow> a < length h"
    and "\<forall>i j a. old i = Some a \<longrightarrow> old j = Some a \<longrightarrow> i = j"
    and "n \<in> set N"
  shows "case old (n_id n) of
           Some a \<Rightarrow> m' (n_id n) = Some a \<and> h' ! a = updateExisting n (h ! a)
         | None \<Rightarrow> \<exists>a. m' (n_id n) = Some a \<and> length h \<le> a \<and> a < length h'
                        \<and> h' ! a = convertToPhysicsNode n"
  using assms
proof (induction N arbitrary: h m ps)
  case Nil
  then show ?case by simp
next
  case (Cons n0 N)
  obtain h1 m1 ps1 where step: "reconcileNode old n0 (h, m, ps) = (h1, m1, ps1)"
    by (cases "reconcileNode old n0 (h, m, ps)")
  have rest: "fold (reconcileNode old) N (h1, m1, ps1) = (h', m', ps')"
    using Cons.prems(1) step by simp
  have len1: "length h \<le> length h1"
    using step by (cases "old (n_id n0)") (auto simp: reconcileNode_Some reconcileNode_None)
  have bounded1: "\<forall>i a. old i = Some a \<longrightarrow> a < length h1"
    using Cons.prems(3) len1 by (meson less_le_trans)
  have dist: "distinct (map n_id N)" and fresh: "n_id n0 \<notin> n_id ` set N"
    using Cons.prems(2) by simp_all
  show ?case
  proof (cases "n = n0")
    case True
    have keep: "m' (n_id n0) = m1 (n_id n0)"
      using pass_map_other [OF rest fresh] .
    show ?thesis
    proof (cases "old (n_id n0)")
      case None
      then have s1: "h1 = h @ [convertToPhysicsNode n0]" "m1 (n_id n0) = Some (length h)"
        using step by (auto simp: reconcileNode_None)
      have "\<forall>k \<in> set N. old (n_id k) \<noteq> Some (length h)"
        using Cons.prems(3) by (metis less_irrefl)
      then have "h' ! length h = h1 ! length h"
        using pass_untouched [OF rest, of "length h"] s1(1) by simp
      moreover have "length h < length h'"
        using pass_length [OF rest] s1(1) by simp
      ultimately show ?thesis
        using True None keep s1 by simp
    next
      case (Some a)
      then have s1: "h1 = h[a := updateExisting n0 (h ! a)]" "m1 (n_id n0) = Some a"
        using step by (auto simp: reconcileNode_Some)
      have a: "a < length h"
        using Some Cons.prems(3) by blast
      have "\<forall>k \<in> set N. old (n_id k) \<noteq> Some a"
      proof
        fix k assume "k \<in> set N"
        then have "n_id k \<noteq> n_id n0"
          using fresh by (metis imageI)
        then show "old (n_id k) \<noteq> Some a"
          using Some Cons.prems(4) by blast
      qed
      then have "h' ! a = h1 ! a"
        using pass_untouched [OF rest, of a] a s1(1) by simp
      then show ?thesis
        using True Some keep s1 a by simp
    qed
  next
    case False
    then have mem: "n \<in> set N"
      using Cons.prems(5) by simp
    then have ne: "n_id n \<noteq> n_id n0"
      using fresh by (metis imageI)
    note ih = Cons.IH [OF rest dist bounded1 Cons.prems(4) mem]
    show ?thesis
    proof (cases "old (n_id n)")
      case None
      then show ?thesis
        using ih len1 by auto
    next
      case (Some a)
      have a: "a < length h"
        using Some Cons.prems(3) by blast
      have "h1 ! a = h ! a"
      proof (cases "old (n_id n0)")
        case None
        then show ?thesis
          using step a by (auto simp: reconcileNode_None nth_append)
      next
        case (Some b)
        then have "b \<noteq> a"
          using \<open>old (n_id n) = Some a\<close> ne Cons.prems(4) by blast
        then show ?thesis
          using step Some by (auto simp: reconcileNode_Some)
      qed
      then show ?thesis
        using ih Some by simp
    qed
  qed
qed

lemma pass_list:
  assumes "fold (reconcileNode old) N (h, m, ps) = (h', m', ps')"
    and "distinct (map n_id N)"
  shows "ps' = ps @ map (\<lambda>n. the (m' (n_id n))) N"
  using assms
proof (induction N arbitrary: h m ps)
  case Nil
  then show ?case by simp
next
  case (Cons n0 N)
  obtain h1 m1 ps1 where step: "reconcileNode old n0 (h, m, ps) = (h1, m1, ps1)"
    by (cases "reconcileNode old n0 (h, m, ps)")
  have rest: "fold (reconcileNode old) N (h1, m1, ps1) = (h', m', ps')"
    using Cons.prems(1) step by simp
  have dist: "distinct (map n_id N)" and fresh: "n_id n0 \<notin> n_id ` set N"
    using Cons.prems(2) by simp_all
  have keep: "m' (n_id n0) = m1 (n_id n0)"
    using pass_map_other [OF rest fresh] .
  have "ps1 = ps @ [the (m1 (n_id n0))]"
    using step by (cases "old (n_id n0)") (auto simp: reconcileNode_Some reconcileNode_None)
  then show ?case
    using Cons.IH [OF rest dist] keep by simp
qed

text \<open>A pass over nodes that are all present and already up to date changes no object.\<close>

lemma pass_fixed:
  assumes "\<forall>n \<in> set M. \<exists>a. old (n_id n) = Some a \<and> updateExisting n (h ! a) = h ! a"
  shows "fold (reconcileNode old) M (h, m, ps) =
           (h, (\<lambda>i. if i \<in> n_id ` set M then old i else m i),
            ps @ map (\<lambda>n. the (old (n_id n))) M)"
  using assms
proof (induction M arbitrary: m ps)
  case Nil
  then show ?case by simp
next
  case (Cons n M)
  then obtain a where a: "old (n_id n) = Some a" "updateExisting n (h ! a) = h ! a"
    by auto
  have "fold (reconcileNode old) (n # M) (h, m, ps) =
          fold (reconcileNode old) M (h, m(n_id n \<mapsto> a), ps @ [a])"
    using a by (simp add: reconcileNode_Some)
  also have "\<dots> = (h, (\<lambda>i. if i \<in> n_id ` set M then old i else (m(n_id n \<mapsto> a)) i),
                   (ps @ [a]) @ map (\<lambda>n. the (old (n_id n))) M)"
    by (rule Cons.IH) (use Cons.prems in simp)
  also have "\<dots> = (h, (\<lambda>i. if i \<in> n_id ` set (n # M) then old i else m i),
                   ps @ map (\<lambda>n. the (old (n_id n))) (n # M))"
    by (auto simp: fun_eq_iff a(1))
  finally show ?case .
qed

lemma sync_enabled:
  assumes "reconcileNodes eng N = (h', m', ps')"
  shows "objects (syncSimulation True N E cw ch eng) = h'"
    and "nodesRef (syncSimulation True N E cw ch eng) = m'"
    and "isRunningRef (syncSimulation True N E cw ch eng) = True"
    and "\<exists>sim. simulationRef (syncSimulation True N E cw ch eng) = Some sim
           \<and> sim_nodes sim = ps' \<and> sim_links sim = physicsEdges m' E
           \<and> sim_center sim = (cw / 2, ch / 2) \<and> sim_alpha sim = alpha_start"
  using assms by (simp_all add: syncSimulation_def split: option.splits)

lemma reconcileNodes_dom:
  assumes "reconcileNodes eng N = (h', m', ps')"
  shows "m' i \<noteq> None \<longleftrightarrow> i \<in> n_id ` set N"
proof
  have f: "fold (reconcileNode (nodesRef eng)) N (objects eng, Map.empty, []) = (h', m', ps')"
    using assms by (simp add: reconcileNodes_def)
  {
    assume "m' i \<noteq> None"
    show "i \<in> n_id ` set N"
    proof (rule ccontr)
      assume "i \<notin> n_id ` set N"
      from pass_map_other [OF f this] have "m' i = None"
        by simp
      with \<open>m' i \<noteq> None\<close> show False
        by simp
    qed
  next
    assume "i \<in> n_id ` set N"
    from pass_map_dom [OF f this] show "m' i \<noteq> None" .
  }
qed

lemma pass_origin:
  assumes "fold (reconcileNode old) N (h, m, ps) = (h', m', ps')"
    and "\<forall>i a. old i = Some a \<longrightarrow> a < length h0"
    and "length h0 \<le> length h"
    and "\<forall>i a. m i = Some a \<longrightarrow>
           old i = Some a \<or> (length h0 \<le> a \<and> a < length h \<and> p_id (h ! a) = i)"
  shows "\<forall>i a. m' i = Some a \<longrightarrow>
           old i = Some a \<or> (length h0 \<le> a \<and> a < length h' \<and> p_id (h' ! a) = i)"
  using assms
proof (induction N arbitrary: h m ps)
  case Nil
  then show ?case by simp
next
  case (Cons n N)
  show ?case
  proof (cases "old (n_id n)")
    case None
    have rest: "fold (reconcileNode old) N
        (h @ [convertToPhysicsNode n], m(n_id n \<mapsto> length h), ps @ [length h]) = (h', m', ps')"
      using Cons.prems(1) None by (simp add: reconcileNode_None)
    have len: "length h0 \<le> length (h @ [convertToPhysicsNode n])"
      using Cons.prems(3) by simp
    have inv: "\<forall>i a. (m(n_id n \<mapsto> length h)) i = Some a \<longrightarrow>
        old i = Some a \<or> (length h0 \<le> a \<and> a < length (h @ [convertToPhysicsNode n])
                          \<and> p_id ((h @ [convertToPhysicsNode n]) ! a) = i)"
    proof (intro allI impI)
      fix i a assume ia: "(m(n_id n \<mapsto> length h)) i = Some a"
      show "old i = Some a \<or> (length h0 \<le> a \<and> a < length (h @ [convertToPhysicsNode n])
                          \<and> p_id ((h @ [convertToPhysicsNode n]) ! a) = i)"
      proof (cases "i = n_id n")
        case True
        then have "a = length h"
          using ia by simp
        then show ?thesis
          using True Cons.prems(3) by (simp add: convertToPhysicsNode_def)
      next
        case False
        then have "m i = Some a"
          using ia by simp
        then have "old i = Some a \<or> (length h0 \<le> a \<and> a < length h \<and> p_id (h ! a) = i)"
          using Cons.prems(4) by blast
        then show ?thesis
          by (auto simp: nth_append)
      qed
    qed
    show ?thesis
      by (rule Cons.IH [OF rest Cons.prems(2) len inv])
  next
    case (Some b)
    have rest: "fold (reconcileNode old) N
        (h[b := updateExisting n (h ! b)], m(n_id n \<mapsto> b), ps @ [b]) = (h', m', ps')"
      using Cons.prems(1) Some by (simp add: reconcileNode_Some)
    have b: "b < length h0"
      using Some Cons.prems(2) by blast
    have len: "length h0 \<le> length (h[b := updateExisting n (h ! b)])"
      using Cons.prems(3) by simp
    have inv: "\<forall>i a. (m(n_id n \<mapsto> b)) i = Some a \<longrightarrow>
        old i = Some a \<or> (length h0 \<le> a \<and> a < length (h[b := updateExisting n (h ! b)])
                          \<and> p_id ((h[b := updateExisting n (h ! b)]) ! a) = i)"
    proof (intro allI impI)
      fix i a assume ia: "(m(n_id n \<mapsto> b)) i = Some a"
      show "old i = Some a \<or> (length h0 \<le> a \<and> a < length (h[b := updateExisting n (h ! b)])
                          \<and> p_id ((h[b := updateExisting n (h ! b)]) ! a) = i)"
      proof (cases "i = n_id n")
        case True
        then show ?thesis
          using ia Some by simp
      next
        case False
        then have "m i = Some a"
          using ia by simp
        then have "old i = Some a \<or> (length h0 \<le> a \<and> a < length h \<and> p_id (h ! a) = i)"
          using Cons.prems(4) by blast
        then show ?thesis
          using b by auto
      qed
    qed
    show ?thesis
      by (rule Cons.IH [OF rest Cons.prems(2) len inv])
  qed
qed

lemma reconcileNodes_wf:
  assumes "wf_engine eng" and r: "reconcileNodes eng N = (h', m', ps')"
  shows "(\<forall>i a. m' i = Some a \<longrightarrow> a < length h')
         \<and> (\<forall>i j a. m' i = Some a \<longrightarrow> m' j = Some a \<longrightarrow> i = j)"
proof -
  have f: "fold (reconcileNode (nodesRef eng)) N (objects eng, Map.empty, []) = (h', m', ps')"
    using r by (simp add: reconcileNodes_def)
  have b: "\<forall>i a. nodesRef eng i = Some a \<longrightarrow> a < length (objects eng)"
    and inj: "\<forall>i j a. nodesRef eng i = Some a \<longrightarrow> nodesRef eng j = Some a \<longrightarrow> i = j"
    using assms(1) by (auto simp: wf_engine_def)
  have origin: "\<forall>i a. m' i = Some a \<longrightarrow>
      nodesRef eng i = Some a
      \<or> (length (objects eng) \<le> a \<and> a < length h' \<and> p_id (h' ! a) = i)"
    by (rule pass_origin [OF f b]) simp_all
  have len: "length (objects eng) \<le> length h'"
    using pass_length [OF f] .
  have 1: "a < length h'" if "m' i = Some a" for i a
    using origin that b len by (meson less_le_trans)
  have 2: "i = j" if ij: "m' i = Some a" "m' j = Some a" for i j a
  proof -
    consider "nodesRef eng i = Some a" "nodesRef eng j = Some a"
      | "nodesRef eng i = Some a" "length (objects eng) \<le> a"
      | "nodesRef eng j = Some a" "length (objects eng) \<le> a"
      | "p_id (h' ! a) = i" "p_id (h' ! a) = j"
      using origin ij by blast
    then show ?thesis
    proof cases
      case 1
      then show ?thesis using inj by blast
    next
      case 2
      then show ?thesis using b by (meson not_le)
    next
      case 3
      then show ?thesis using b by (meson not_le)
    next
      case 4
      then show ?thesis by simp
    qed
  qed
  show ?thesis
    using 1 2 by blast
qed

lemma wf_engine0: "wf_engine engine0"
  by (simp add: wf_engine_def engine0_def)

lemma wf_syncSimulation:
  assumes "wf_engine eng"
  shows "wf_engine (syncSimulation enabled N E cw ch eng)"
proof (cases enabled)
  case False
  then show ?thesis
    using assms
    by (simp add: syncSimulation_def stopSimulation_def wf_engine_def split: option.splits)
next
  case True
  obtain h' m' ps' where r: "reconcileNodes eng N = (h', m', ps')"
    by (cases "reconcileNodes eng N")
  show ?thesis
    using reconcileNodes_wf [OF assms r] True
    by (simp add: wf_engine_def sync_enabled(1,2) [OF r])
qed

lemmas example_defs = engine2_def engine1v_def engine1_def engine0_def nodeA_def nodeB_def nodeC_def
  edgeAB_def edgeAX_def syncSimulation_def reconcileNodes_def reconcileNode_def
  updateExisting_def convertToPhysicsNode_def physicsEdges_def setNodeVelocity_def reheat_def
  alpha_start_def alpha_min_def alpha_decay_def

lemma engine1_eval:
  "objects engine1 =
     [\<lparr>p_id = ''a'', p_x = 0, p_y = 0, p_vx = 0, p_vy = 0, p_radius = 45, p_fx = None, p_fy = None\<rparr>,
      \<lparr>p_id = ''b'', p_x = 100, p_y = 50, p_vx = 0, p_vy = 0, p_radius = 30,
        p_fx = Some 100, p_fy = Some 50\<rparr>]"
  "nodesRef engine1 = [''a'' \<mapsto> 0, ''b'' \<mapsto> 1]"
  "simulationRef engine1 =
     Some \<lparr>sim_nodes = [0, 1], sim_links = [\<lparr>pe_source = ''a'', pe_target = ''b''\<rparr>],
           sim_center = (400, 300), sim_alpha = 1, sim_alphaMin = 1 / 1000,
           sim_alphaDecay = 2 / 100, sim_timer = True\<rparr>"
  "isRunningRef engine1 = True"
  by (simp_all add: example_defs)

lemma wf_setNodeVelocity: "wf_engine eng \<Longrightarrow> wf_engine (setNodeVelocity i vx vy eng)"
  by (simp add: wf_engine_def setNodeVelocity_def reheat_def split: option.splits)

lemma wf_engine1v: "wf_engine engine1v"
  unfolding engine1v_def engine1_def
  by (intro wf_setNodeVelocity wf_syncSimulation wf_engine0)

text \<open>
  C2, as stated, fails for the shadow position: the effect overwrites the position of a
  node that is already in the map with the canonical one. Node \<open>a\<close> sits at \<open>(0, 0)\<close> with
  velocity \<open>(2, 3)\<close>; reconciled against a node list that has it at \<open>(5, 6)\<close>, it keeps the
  velocity and moves to \<open>(5, 6)\<close>.
\<close>

theorem reconcile_position_counterexample:
  "nodesRef engine1v ''a'' = Some 0
   \<and> p_x (objects engine1v ! 0) = 0 \<and> p_y (objects engine1v ! 0) = 0
   \<and> p_vx (objects engine1v ! 0) = 2 \<and> p_vy (objects engine1v ! 0) = 3
   \<and> nodesRef engine2 ''a'' = Some 0
   \<and> p_x (objects engine2 ! 0) = 5 \<and> p_y (objects engine2 ! 0) = 6
   \<and> p_vx (objects engine2 ! 0) = 2 \<and> p_vy (objects engine2 ! 0) = 3
   \<and> p_x (objects engine2 ! 0) \<noteq> p_x (objects engine1v ! 0)"
  by (simp add: example_defs)

text \<open>
  C2, amended. Reconciling against a list of nodes with distinct ids: a node present
  before and after keeps its physics object and its shadow velocity, and its shadow
  position becomes the canonical position; a node newly present gets a fresh object at
  the canonical position with zero velocity; an id that is no longer present is not in
  the shadow map.
\<close>

theorem sync_reconcile:
  assumes "wf_engine eng" and "distinct (map n_id N)"
  shows "let eng' = syncSimulation True N E cw ch eng
         in (\<forall>n \<in> set N. \<forall>a. nodesRef eng (n_id n) = Some a \<longrightarrow>
                nodesRef eng' (n_id n) = Some a
                \<and> p_vx (objects eng' ! a) = p_vx (objects eng ! a)
                \<and> p_vy (objects eng' ! a) = p_vy (objects eng ! a)
                \<and> p_x (objects eng' ! a) = n_x n
                \<and> p_y (objects eng' ! a) = n_y n)
            \<and> (\<forall>n \<in> set N. nodesRef eng (n_id n) = None \<longrightarrow>
                (\<exists>a. nodesRef eng' (n_id n) = Some a
                      \<and> length (objects eng) \<le> a
                      \<and> a < length (objects eng')
                      \<and> p_x (objects eng' ! a) = n_x n
                      \<and> p_y (objects eng' ! a) = n_y n
                      \<and> p_vx (objects eng' ! a) = 0
                      \<and> p_vy (objects eng' ! a) = 0))
            \<and> (\<forall>i. i \<notin> n_id ` set N \<longrightarrow> nodesRef eng' i = None)"
proof -
  obtain h' m' ps' where r: "reconcileNodes eng N = (h', m', ps')"
    by (cases "reconcileNodes eng N")
  then have f: "fold (reconcileNode (nodesRef eng)) N (objects eng, Map.empty, []) = (h', m', ps')"
    by (simp add: reconcileNodes_def)
  have b: "\<forall>i a. nodesRef eng i = Some a \<longrightarrow> a < length (objects eng)"
    and inj: "\<forall>i j a. nodesRef eng i = Some a \<longrightarrow> nodesRef eng j = Some a \<longrightarrow> i = j"
    using assms(1) by (auto simp: wf_engine_def)
  note node = pass_node [OF f assms(2) b inj]
  have 1: "nodesRef (syncSimulation True N E cw ch eng) (n_id n) = Some a
           \<and> p_vx (objects (syncSimulation True N E cw ch eng) ! a) = p_vx (objects eng ! a)
           \<and> p_vy (objects (syncSimulation True N E cw ch eng) ! a) = p_vy (objects eng ! a)
           \<and> p_x (objects (syncSimulation True N E cw ch eng) ! a) = n_x n
           \<and> p_y (objects (syncSimulation True N E cw ch eng) ! a) = n_y n"
    if "n \<in> set N" and "nodesRef eng (n_id n) = Some a" for n a
    using node [OF that(1)] that(2)
    by (simp add: sync_enabled [OF r] updateExisting_velocity)
  have 2: "\<exists>a. nodesRef (syncSimulation True N E cw ch eng) (n_id n) = Some a
              \<and> length (objects eng) \<le> a
              \<and> a < length (objects (syncSimulation True N E cw ch eng))
              \<and> p_x (objects (syncSimulation True N E cw ch eng) ! a) = n_x n
              \<and> p_y (objects (syncSimulation True N E cw ch eng) ! a) = n_y n
              \<and> p_vx (objects (syncSimulation True N E cw ch eng) ! a) = 0
              \<and> p_vy (objects (syncSimulation True N E cw ch eng) ! a) = 0"
    if "n \<in> set N" and "nodesRef eng (n_id n) = None" for n
  proof -
    from node [OF that(1)] that(2)
    obtain a where "m' (n_id n) = Some a" "length (objects eng) \<le> a" "a < length h'"
      "h' ! a = convertToPhysicsNode n"
      by auto
    then show ?thesis
      by (auto simp: sync_enabled [OF r] convertToPhysicsNode_def)
  qed
  have 3: "nodesRef (syncSimulation True N E cw ch eng) i = None" if "i \<notin> n_id ` set N" for i
    using reconcileNodes_dom [OF r, of i] that by (simp add: sync_enabled [OF r])
  show ?thesis
    unfolding Let_def using 1 2 3 by blast
qed

theorem sync_reconcile_witness:
  "wf_engine engine1v
   \<and> distinct (map n_id [nodeA\<lparr>n_x := 5, n_y := 6\<rparr>, nodeC])
   \<and> nodesRef engine2 ''a'' = Some 0
   \<and> p_vx (objects engine2 ! 0) = p_vx (objects engine1v ! 0)
   \<and> p_x (objects engine2 ! 0) = 5
   \<and> (\<exists>a. nodesRef engine2 ''c'' = Some a \<and> 2 \<le> a \<and> p_x (objects engine2 ! a) = 7
           \<and> p_vx (objects engine2 ! a) = 0)
   \<and> nodesRef engine2 ''b'' = None"
proof -
  have d: "distinct (map n_id [nodeA\<lparr>n_x := 5, n_y := 6\<rparr>, nodeC])"
    by (simp add: nodeA_def nodeC_def)
  have a: "nodesRef engine1v ''a'' = Some 0" and c: "nodesRef engine1v ''c'' = None"
    and len: "length (objects engine1v) = 2"
    by (simp_all add: example_defs)
  show ?thesis
    using sync_reconcile [OF wf_engine1v d, of "[edgeAB, edgeAX]" 800 600] a c len wf_engine1v d
    unfolding Let_def engine2_def [symmetric]
    by (auto simp: nodeA_def nodeC_def)
qed

section \<open>Reconciling twice\<close>

lemma stopSimulation_idem: "stopSimulation (stopSimulation eng) = stopSimulation eng"
  by (simp add: stopSimulation_def split: option.splits)

lemma reconcileNodes_again:
  assumes "wf_engine eng" and "distinct (map n_id N)"
    and r: "reconcileNodes eng N = (h', m', ps')"
  shows "fold (reconcileNode m') N (h', Map.empty, []) = (h', m', ps')"
proof -
  have f: "fold (reconcileNode (nodesRef eng)) N (objects eng, Map.empty, []) = (h', m', ps')"
    using r by (simp add: reconcileNodes_def)
  have b: "\<forall>i a. nodesRef eng i = Some a \<longrightarrow> a < length (objects eng)"
    and inj: "\<forall>i j a. nodesRef eng i = Some a \<longrightarrow> nodesRef eng j = Some a \<longrightarrow> i = j"
    using assms(1) by (auto simp: wf_engine_def)
  have up_to_date: "\<forall>n \<in> set N. \<exists>a. m' (n_id n) = Some a \<and> updateExisting n (h' ! a) = h' ! a"
  proof
    fix n assume n: "n \<in> set N"
    show "\<exists>a. m' (n_id n) = Some a \<and> updateExisting n (h' ! a) = h' ! a"
      using pass_node [OF f assms(2) b inj n]
      by (cases "nodesRef eng (n_id n)")
         (auto simp: updateExisting_idem updateExisting_convert)
  qed
  have m: "(\<lambda>i. if i \<in> n_id ` set N then m' i else None) = m'"
  proof
    fix i
    show "(if i \<in> n_id ` set N then m' i else None) = m' i"
      using reconcileNodes_dom [OF r, of i] by auto
  qed
  have ps: "map (\<lambda>n. the (m' (n_id n))) N = ps'"
    using pass_list [OF f assms(2)] by simp
  have "fold (reconcileNode m') N (h', Map.empty, []) =
          (h', (\<lambda>i. if i \<in> n_id ` set N then m' i else Map.empty i),
           [] @ map (\<lambda>n. the (m' (n_id n))) N)"
    by (rule pass_fixed [OF up_to_date])
  also have "\<dots> = (h', m', ps')"
    using m ps by simp
  finally show ?thesis .
qed

lemma sync_twice:
  assumes "wf_engine eng" and "distinct (map n_id N)"
  shows "syncSimulation enabled N E cw ch (syncSimulation enabled N E cw ch eng)
           = syncSimulation enabled N E cw ch eng"
proof (cases enabled)
  case False
  then show ?thesis
    by (simp add: syncSimulation_def stopSimulation_idem)
next
  case True
  obtain h' m' ps' where r: "reconcileNodes eng N = (h', m', ps')"
    by (cases "reconcileNodes eng N")
  define eng1 where "eng1 = syncSimulation True N E cw ch eng"
  have o1: "objects eng1 = h'" and m1: "nodesRef eng1 = m'" and run1: "isRunningRef eng1"
    using sync_enabled [OF r, of E cw ch] by (simp_all add: eng1_def)
  obtain sim1 where sim1: "simulationRef eng1 = Some sim1" "sim_nodes sim1 = ps'"
      "sim_links sim1 = physicsEdges m' E" "sim_center sim1 = (cw / 2, ch / 2)"
      "sim_alpha sim1 = alpha_start"
    using sync_enabled(4) [OF r, of E cw ch] unfolding eng1_def by blast
  have r1: "reconcileNodes eng1 N = (h', m', ps')"
    using reconcileNodes_again [OF assms r] by (simp add: reconcileNodes_def o1 m1)
  have "syncSimulation True N E cw ch eng1 = eng1"
    using sim1 run1 o1 m1 by (simp add: syncSimulation_def r1)
  then show ?thesis
    using True by (simp add: eng1_def)
qed

lemma sync_after_cleanup:
  assumes "wf_engine eng" and "distinct (map n_id N)"
  shows "syncSimulation True N E cw ch (cleanup (syncSimulation True N E cw ch eng))
           = resume True (syncSimulation True N E cw ch eng)"
proof -
  obtain h' m' ps' where r: "reconcileNodes eng N = (h', m', ps')"
    by (cases "reconcileNodes eng N")
  define eng1 where "eng1 = syncSimulation True N E cw ch eng"
  have o1: "objects eng1 = h'" and m1: "nodesRef eng1 = m'"
    using sync_enabled [OF r, of E cw ch] by (simp_all add: eng1_def)
  obtain sim1 where sim1: "simulationRef eng1 = Some sim1" "sim_nodes sim1 = ps'"
      "sim_links sim1 = physicsEdges m' E" "sim_center sim1 = (cw / 2, ch / 2)"
      "sim_alpha sim1 = alpha_start"
    using sync_enabled(4) [OF r, of E cw ch] unfolding eng1_def by blast
  have ce: "cleanup eng1 = eng1\<lparr>simulationRef := Some (sim1\<lparr>sim_timer := False\<rparr>),
                                isRunningRef := False\<rparr>"
    using sim1(1) by (simp add: cleanup_def stopSimulation_def)
  have r1: "reconcileNodes (eng1\<lparr>simulationRef := Some (sim1\<lparr>sim_timer := False\<rparr>),
                                isRunningRef := False\<rparr>) N = (h', m', ps')"
    using reconcileNodes_again [OF assms r] by (simp add: reconcileNodes_def o1 m1)
  have "syncSimulation True N E cw ch (cleanup eng1) = resume True eng1"
    unfolding ce using sim1 o1 m1
    by (simp add: syncSimulation_def r1 resume_def)
  then show ?thesis
    by (simp add: eng1_def)
qed

text \<open>
  C4. Running the effect again with the same nodes (distinct ids), edges and canvas size
  gives the very same engine state: objects with their positions and velocities, shadow
  map, simulation nodes, links, centre, alpha and running flags. With the cleanup React
  runs in between, the second run yields that state with the timer switched on.
\<close>

theorem sync_idempotent:
  assumes "wf_engine eng" and "distinct (map n_id N)"
  shows "syncSimulation enabled N E cw ch (syncSimulation enabled N E cw ch eng)
           = syncSimulation enabled N E cw ch eng
         \<and> syncSimulation True N E cw ch (cleanup (syncSimulation True N E cw ch eng))
           = resume True (syncSimulation True N E cw ch eng)"
  using sync_twice [OF assms] sync_after_cleanup [OF assms] by simp

theorem sync_idempotent_witness:
  "wf_engine engine1v
   \<and> distinct (map n_id [nodeA\<lparr>n_x := 5, n_y := 6\<rparr>, nodeC])
   \<and> syncSimulation True [nodeA\<lparr>n_x := 5, n_y := 6\<rparr>, nodeC] [edgeAB, edgeAX] 800 600 engine2 = engine2"
proof -
  have d: "distinct (map n_id [nodeA\<lparr>n_x := 5, n_y := 6\<rparr>, nodeC])"
    by (simp add: nodeA_def nodeC_def)
  show ?thesis
    using sync_idempotent [OF wf_engine1v d, of True "[edgeAB, edgeAX]" 800 600] wf_engine1v d
    by (simp add: engine2_def)
qed

section \<open>Edges with a missing endpoint\<close>

lemma physicsEdges_drop:
  assumes "m (e_sourceId e) = None \<or> m (e_targetId e) = None"
  shows "physicsEdges m (E1 @ e # E2) = physicsEdges m (E1 @ E2)"
  using assms by (auto simp: physicsEdges_def)

lemma physicsEdges_endpoints:
  "l \<in> set (physicsEdges m E) \<Longrightarrow> m (pe_source l) \<noteq> None \<and> m (pe_target l) \<noteq> None"
  by (auto simp: physicsEdges_def)

lemma sync_links_only:
  assumes "physicsEdges (fst (snd (reconcileNodes eng N))) E
           = physicsEdges (fst (snd (reconcileNodes eng N))) E'"
  shows "syncSimulation True N E cw ch eng = syncSimulation True N E' cw ch eng"
proof -
  obtain h' m' ps' where r: "reconcileNodes eng N = (h', m', ps')"
    by (cases "reconcileNodes eng N")
  show ?thesis
    using assms by (simp add: syncSimulation_def r split: option.splits)
qed

text \<open>
  C7. An edge whose source or target is the id of no node in the node list is not among
  the links of the simulation, every link has both endpoints among the nodes, and the
  engine state is the one the effect produces without that edge: the edge has no influence
  on anything the engine computes.
\<close>

theorem dangling_edge_filtered:
  assumes "e_sourceId e \<notin> n_id ` set N \<or> e_targetId e \<notin> n_id ` set N"
  shows "let eng' = syncSimulation True N (E1 @ e # E2) cw ch eng
         in (\<exists>sim. simulationRef eng' = Some sim
               \<and> \<lparr>pe_source = e_sourceId e, pe_target = e_targetId e\<rparr> \<notin> set (sim_links sim)
               \<and> (\<forall>l \<in> set (sim_links sim).
                     pe_source l \<in> n_id ` set N \<and> pe_target l \<in> n_id ` set N)
               \<and> sim_links sim = physicsEdges (nodesRef eng') (E1 @ E2))
            \<and> eng' = syncSimulation True N (E1 @ E2) cw ch eng"
proof -
  obtain h' m' ps' where r: "reconcileNodes eng N = (h', m', ps')"
    by (cases "reconcileNodes eng N")
  note dom = reconcileNodes_dom [OF r]
  have missing: "m' (e_sourceId e) = None \<or> m' (e_targetId e) = None"
    using assms dom by blast
  have drop: "physicsEdges m' (E1 @ e # E2) = physicsEdges m' (E1 @ E2)"
    by (rule physicsEdges_drop [OF missing])
  obtain sim where sim: "simulationRef (syncSimulation True N (E1 @ e # E2) cw ch eng) = Some sim"
      "sim_links sim = physicsEdges m' (E1 @ e # E2)"
    using sync_enabled(4) [OF r, of "E1 @ e # E2" cw ch] by blast
  have ends: "pe_source l \<in> n_id ` set N \<and> pe_target l \<in> n_id ` set N"
    if "l \<in> set (sim_links sim)" for l
    using physicsEdges_endpoints [of l m' "E1 @ e # E2"] that sim(2) dom by simp
  have absent: "\<lparr>pe_source = e_sourceId e, pe_target = e_targetId e\<rparr> \<notin> set (sim_links sim)"
  proof
    assume "\<lparr>pe_source = e_sourceId e, pe_target = e_targetId e\<rparr> \<in> set (sim_links sim)"
    from ends [OF this] show False
      using assms by simp
  qed
  have same: "syncSimulation True N (E1 @ e # E2) cw ch eng = syncSimulation True N (E1 @ E2) cw ch eng"
    by (rule sync_links_only) (simp add: r drop)
  have links: "sim_links sim = physicsEdges (nodesRef (syncSimulation True N (E1 @ e # E2) cw ch eng)) (E1 @ E2)"
    using sim(2) drop by (simp add: sync_enabled(2) [OF r])
  show ?thesis
    unfolding Let_def using sim(1) absent ends links same by blast
qed

theorem dangling_edge_filtered_witness:
  "e_targetId edgeAX \<notin> n_id ` set [nodeA, nodeB]
   \<and> (\<exists>sim. simulationRef engine1 = Some sim
          \<and> sim_links sim = [\<lparr>pe_source = ''a'', pe_target = ''b''\<rparr>]
          \<and> \<lparr>pe_source = ''a'', pe_target = ''x''\<rparr> \<notin> set (sim_links sim))
   \<and> engine1 = syncSimulation True [nodeA, nodeB] [edgeAB] 800 600 engine0"
proof -
  have h: "e_sourceId edgeAX \<notin> n_id ` set [nodeA, nodeB] \<or> e_targetId edgeAX \<notin> n_id ` set [nodeA, nodeB]"
    by (simp add: edgeAX_def nodeA_def nodeB_def)
  have t: "e_targetId edgeAX \<notin> n_id ` set [nodeA, nodeB]"
    by (simp add: edgeAX_def nodeA_def nodeB_def)
  have l: "physicsEdges (nodesRef engine1) [edgeAB] = [\<lparr>pe_source = ''a'', pe_target = ''b''\<rparr>]"
    by (simp add: engine1_eval physicsEdges_def edgeAB_def)
  have x: "e_sourceId edgeAX = ''a''" "e_targetId edgeAX = ''x''"
    by (simp_all add: edgeAX_def)
  show ?thesis
    using dangling_edge_filtered [OF h, of "[edgeAB]" "[]" 800 600 engine0] t l
    unfolding Let_def by (auto simp: engine1_def [symmetric] x)
qed

section \<open>The pin invariant\<close>

lemma integrate_pins:
  "p_fx (integrate f p) = p_fx p" "p_fy (integrate f p) = p_fy p"
  "p_id (integrate f p) = p_id p"
  "p_fx p = Some X \<Longrightarrow> p_x (integrate f p) = X \<and> p_vx (integrate f p) = 0"
  "p_fy p = Some Y \<Longrightarrow> p_y (integrate f p) = Y \<and> p_vy (integrate f p) = 0"
  by (simp_all add: integrate_def Let_def)

lemma integrate_free:
  "p_fx p = None \<Longrightarrow> p_x (integrate f p) = p_x p + (p_vx p + fst f)"
  "p_fy p = None \<Longrightarrow> p_y (integrate f p) = p_y p + (p_vy p + snd f)"
  by (simp_all add: integrate_def Let_def)

lemma fold_integrate_length:
  "length (fold (\<lambda>a objs. objs[a := integrate (f a) (objs ! a)]) as objs) = length objs"
  by (induction as arbitrary: objs) simp_all

lemma fold_integrate_pinned:
  assumes "a < length objs" and "p_fx (objs ! a) = Some X" and "p_fy (objs ! a) = Some Y"
    and "a \<in> set as \<or> held X Y (objs ! a)"
  shows "p_fx (fold (\<lambda>a objs. objs[a := integrate (f a) (objs ! a)]) as objs ! a) = Some X
         \<and> p_fy (fold (\<lambda>a objs. objs[a := integrate (f a) (objs ! a)]) as objs ! a) = Some Y
         \<and> held X Y (fold (\<lambda>a objs. objs[a := integrate (f a) (objs ! a)]) as objs ! a)"
  using assms
proof (induction as arbitrary: objs)
  case Nil
  then show ?case by simp
next
  case (Cons b as)
  let ?objs = "objs[b := integrate (f b) (objs ! b)]"
  have len: "a < length ?objs"
    using Cons.prems(1) by simp
  show ?case
  proof (cases "b = a")
    case True
    have "p_fx (?objs ! a) = Some X" "p_fy (?objs ! a) = Some Y" "held X Y (?objs ! a)"
      using True Cons.prems(1-3) by (simp_all add: integrate_pins held_def)
    then show ?thesis
      using Cons.IH [OF len] by simp
  next
    case False
    then have same: "?objs ! a = objs ! a"
      by simp
    have "a \<in> set as \<or> held X Y (?objs ! a)"
      using Cons.prems(4) False same by auto
    then show ?thesis
      using Cons.IH [OF len] Cons.prems(2,3) same by simp
  qed
qed

lemma fold_integrate_other:
  "a \<notin> set as \<Longrightarrow> fold (\<lambda>a objs. objs[a := integrate (f a) (objs ! a)]) as objs ! a = objs ! a"
  by (induction as arbitrary: objs) auto

lemma fold_integrate_once:
  assumes "distinct as" and "a \<in> set as" and "a < length objs"
  shows "fold (\<lambda>a objs. objs[a := integrate (f a) (objs ! a)]) as objs ! a
           = integrate (f a) (objs ! a)"
  using assms
proof (induction as arbitrary: objs)
  case Nil
  then show ?case by simp
next
  case (Cons b as)
  show ?case
  proof (cases "b = a")
    case True
    then have "a \<notin> set as"
      using Cons.prems(1) by simp
    then show ?thesis
      using True Cons.prems(3) by (simp add: fold_integrate_other)
  next
    case False
    then show ?thesis
      using Cons by simp
  qed
qed

lemma tick_frame:
  "nodesRef (tick force eng) = nodesRef eng"
  "length (objects (tick force eng)) = length (objects eng)"
  "isRunningRef (tick force eng) = isRunningRef eng"
  "simulationRef (tick force eng) = map_option decay (simulationRef eng)"
  by (simp_all add: tick_def fold_integrate_length split: option.splits)

lemma decay_frame:
  "sim_nodes (decay sim) = sim_nodes sim" "sim_links (decay sim) = sim_links sim"
  "sim_center (decay sim) = sim_center sim" "sim_alphaMin (decay sim) = sim_alphaMin sim"
  "sim_alphaDecay (decay sim) = sim_alphaDecay sim"
  by (simp_all add: decay_def Let_def)

lemma wf_frame:
  assumes "nodesRef eng' = nodesRef eng" and "length (objects eng') = length (objects eng)"
    and "wf_engine eng"
  shows "wf_engine eng'"
  using assms by (simp add: wf_engine_def)

lemma wf_tick: "wf_engine eng \<Longrightarrow> wf_engine (tick force eng)"
  by (rule wf_frame [of _ eng]) (simp_all add: tick_frame)

lemma wf_setNodePosition: "wf_engine eng \<Longrightarrow> wf_engine (setNodePosition i x y eng)"
  by (rule wf_frame [of _ eng]) (simp_all add: setNodePosition_def split: option.splits)

lemma wf_reheat: "wf_engine eng \<Longrightarrow> wf_engine (reheat eng)"
  by (rule wf_frame [of _ eng]) (simp_all add: reheat_def split: option.splits)

lemma wf_stopSimulation: "wf_engine eng \<Longrightarrow> wf_engine (stopSimulation eng)"
  by (rule wf_frame [of _ eng]) (simp_all add: stopSimulation_def split: option.splits)

lemma wf_resume: "wf_engine eng \<Longrightarrow> wf_engine (resume enabled eng)"
  by (rule wf_frame [of _ eng]) (simp_all add: resume_def split: option.splits)

text \<open>The pin invariant of one tick, for any node whose pinned position is set.\<close>

lemma tick_pinned:
  assumes "simulationRef eng = Some sim" and "a < length (objects eng)"
    and "p_fx (objects eng ! a) = Some X" and "p_fy (objects eng ! a) = Some Y"
    and "a \<in> set (sim_nodes sim) \<or> held X Y (objects eng ! a)"
  shows "p_fx (objects (tick force eng) ! a) = Some X
         \<and> p_fy (objects (tick force eng) ! a) = Some Y
         \<and> held X Y (objects (tick force eng) ! a)"
  using fold_integrate_pinned [OF assms(2-4), of "sim_nodes sim" "force eng"] assms(1,5)
  by (simp add: tick_def)

lemma ticks_pinned:
  assumes "simulationRef eng = Some sim" and "a < length (objects eng)"
    and "p_fx (objects eng ! a) = Some X" and "p_fy (objects eng ! a) = Some Y"
    and "a \<in> set (sim_nodes sim)"
  shows "nodesRef ((tick force ^^ k) eng) = nodesRef eng
         \<and> length (objects ((tick force ^^ k) eng)) = length (objects eng)
         \<and> (\<exists>s. simulationRef ((tick force ^^ k) eng) = Some s \<and> a \<in> set (sim_nodes s))
         \<and> p_fx (objects ((tick force ^^ k) eng) ! a) = Some X
         \<and> p_fy (objects ((tick force ^^ k) eng) ! a) = Some Y
         \<and> (0 < k \<longrightarrow> held X Y (objects ((tick force ^^ k) eng) ! a))"
proof (induction k)
  case 0
  show ?case
    using assms by simp
next
  case (Suc k)
  let ?e = "(tick force ^^ k) eng"
  obtain s where s: "simulationRef ?e = Some s" "a \<in> set (sim_nodes s)"
    using Suc by auto
  have "p_fx (objects (tick force ?e) ! a) = Some X
         \<and> p_fy (objects (tick force ?e) ! a) = Some Y
         \<and> held X Y (objects (tick force ?e) ! a)"
    by (rule tick_pinned [OF s(1)]) (use Suc assms(2) s(2) in simp_all)
  then show ?case
    using Suc s by (simp add: tick_frame decay_frame)
qed

lemma sync_node:
  assumes "wf_engine eng" and "distinct (map n_id N)" and "n \<in> set N"
  shows "\<exists>a sim. nodesRef (syncSimulation True N E cw ch eng) (n_id n) = Some a
           \<and> a < length (objects (syncSimulation True N E cw ch eng))
           \<and> simulationRef (syncSimulation True N E cw ch eng) = Some sim
           \<and> a \<in> set (sim_nodes sim) \<and> distinct (sim_nodes sim)
           \<and> p_x (objects (syncSimulation True N E cw ch eng) ! a) = n_x n
           \<and> p_y (objects (syncSimulation True N E cw ch eng) ! a) = n_y n
           \<and> p_fx (objects (syncSimulation True N E cw ch eng) ! a)
               = (if n_status n = FRUIT then Some (n_x n) else None)
           \<and> p_fy (objects (syncSimulation True N E cw ch eng) ! a)
               = (if n_status n = FRUIT then Some (n_y n) else None)"
proof -
  obtain h' m' ps' where r: "reconcileNodes eng N = (h', m', ps')"
    by (cases "reconcileNodes eng N")
  then have f: "fold (reconcileNode (nodesRef eng)) N (objects eng, Map.empty, []) = (h', m', ps')"
    by (simp add: reconcileNodes_def)
  have b: "\<forall>i a. nodesRef eng i = Some a \<longrightarrow> a < length (objects eng)"
    and inj: "\<forall>i j a. nodesRef eng i = Some a \<longrightarrow> nodesRef eng j = Some a \<longrightarrow> i = j"
    using assms(1) by (auto simp: wf_engine_def)
  note wf' = reconcileNodes_wf [OF assms(1) r]
  have "\<exists>a. m' (n_id n) = Some a
          \<and> (h' ! a = updateExisting n (objects eng ! a) \<or> h' ! a = convertToPhysicsNode n)"
    using pass_node [OF f assms(2) b inj assms(3)]
    by (cases "nodesRef eng (n_id n)") auto
  then obtain a where a: "m' (n_id n) = Some a"
      and obj: "h' ! a = updateExisting n (objects eng ! a) \<or> h' ! a = convertToPhysicsNode n"
    by blast
  have len: "a < length h'"
    using wf' a by blast
  have ps: "ps' = map (\<lambda>k. the (m' (n_id k))) N"
    using pass_list [OF f assms(2)] by simp
  have mem: "a \<in> set ps'"
    unfolding ps using assms(3) a by force
  have "inj_on (\<lambda>k. the (m' (n_id k))) (set N)"
  proof (rule inj_onI)
    fix k l assume k: "k \<in> set N" and l: "l \<in> set N"
      and eq: "the (m' (n_id k)) = the (m' (n_id l))"
    obtain ak al where "m' (n_id k) = Some ak" "m' (n_id l) = Some al"
      using reconcileNodes_dom [OF r] k l by (metis imageI not_None_eq)
    then have "n_id k = n_id l"
      using eq wf' by auto
    then show "k = l"
      using assms(2) k l by (meson distinct_map inj_onD)
  qed
  then have dist: "distinct ps'"
    unfolding ps using assms(2) by (simp add: distinct_map)
  obtain sim where sim: "simulationRef (syncSimulation True N E cw ch eng) = Some sim"
      "sim_nodes sim = ps'"
    using sync_enabled(4) [OF r, of E cw ch] by blast
  have fields: "p_x (h' ! a) = n_x n" "p_y (h' ! a) = n_y n"
      "p_fx (h' ! a) = (if n_status n = FRUIT then Some (n_x n) else None)"
      "p_fy (h' ! a) = (if n_status n = FRUIT then Some (n_y n) else None)"
    using obj by (auto simp: updateExisting_def convertToPhysicsNode_def)
  show ?thesis
    using a len sim mem dist fields by (simp add: sync_enabled(1,2) [OF r])
qed

lemma setNodePosition_at:
  assumes "nodesRef eng i = Some a" and "simulationRef eng = Some sim"
    and "a < length (objects eng)"
  shows "objects (setNodePosition i x y eng) ! a
           = (objects eng ! a)\<lparr>p_x := x, p_y := y, p_vx := 0, p_vy := 0\<rparr>"
    and "simulationRef (setNodePosition i x y eng) = Some sim"
    and "length (objects (setNodePosition i x y eng)) = length (objects eng)"
    and "nodesRef (setNodePosition i x y eng) = nodesRef eng"
  using assms by (simp_all add: setNodePosition_def)

text \<open>
  C1, as stated, fails for a node whose position is dictated through \<open>setNodePosition\<close>:
  that operation writes \<open>x\<close>, \<open>y\<close> and a zero velocity but leaves \<open>fx\<close> and \<open>fy\<close> alone, so
  the node is not pinned and the next tick moves it. Node \<open>a\<close> (flowering) is set to
  \<open>(50, 60)\<close>; after one tick under the centring pull it is at \<open>(60.5, 67.2)\<close>.
\<close>

theorem drag_not_pinned_counterexample:
  "nodesRef engine1d ''a'' = Some 0
   \<and> p_x (objects engine1d ! 0) = 50 \<and> p_y (objects engine1d ! 0) = 60
   \<and> p_fx (objects engine1d ! 0) = None \<and> p_fy (objects engine1d ! 0) = None
   \<and> p_x (objects engine1t ! 0) = 121 / 2 \<and> p_y (objects engine1t ! 0) = 336 / 5
   \<and> p_x (objects engine1t ! 0) \<noteq> 50 \<and> p_y (objects engine1t ! 0) \<noteq> 60"
  by (simp add: engine1t_def engine1d_def engine1_eval setNodePosition_def tick_def
      integrate_def centering_def forceCenter_strength_def Let_def)

text \<open>
  C1, amended. After the effect has reconciled a list of nodes with distinct ids, every
  node of the list whose status is \<open>fruit\<close> is pinned at its canonical position: after any
  number of ticks, under any forces, its position equals these coordinates exactly, and
  its velocity is zero after each tick. \<open>setNodePosition\<close> does not pin: for a node that
  is not \<open>fruit\<close> it writes the position and a zero velocity, and the next tick leaves the
  node at that position plus the net force on it.
\<close>

theorem pin_invariant:
  assumes "wf_engine eng" and "distinct (map n_id N)" and "n \<in> set N"
  shows "let eng' = syncSimulation True N E cw ch eng
         in \<exists>a. nodesRef eng' (n_id n) = Some a
              \<and> (n_status n = FRUIT \<longrightarrow>
                   (\<forall>k. nodesRef ((tick force ^^ k) eng') (n_id n) = Some a
                        \<and> p_x (objects ((tick force ^^ k) eng') ! a) = n_x n
                        \<and> p_y (objects ((tick force ^^ k) eng') ! a) = n_y n
                        \<and> (0 < k \<longrightarrow> p_vx (objects ((tick force ^^ k) eng') ! a) = 0
                                    \<and> p_vy (objects ((tick force ^^ k) eng') ! a) = 0)))
              \<and> (n_status n \<noteq> FRUIT \<longrightarrow>
                   (let moved = setNodePosition (n_id n) x y eng'
                    in p_x (objects moved ! a) = x \<and> p_y (objects moved ! a) = y
                       \<and> p_fx (objects moved ! a) = None \<and> p_fy (objects moved ! a) = None
                       \<and> p_x (objects (tick force moved) ! a) = x + fst (force moved a)
                       \<and> p_y (objects (tick force moved) ! a) = y + snd (force moved a)))"
proof -
  define eng' where "eng' = syncSimulation True N E cw ch eng"
  obtain a sim where a: "nodesRef eng' (n_id n) = Some a" "a < length (objects eng')"
      and sim: "simulationRef eng' = Some sim" "a \<in> set (sim_nodes sim)" "distinct (sim_nodes sim)"
      and pos: "p_x (objects eng' ! a) = n_x n" "p_y (objects eng' ! a) = n_y n"
      and pin: "p_fx (objects eng' ! a) = (if n_status n = FRUIT then Some (n_x n) else None)"
               "p_fy (objects eng' ! a) = (if n_status n = FRUIT then Some (n_y n) else None)"
    using sync_node [OF assms, of E cw ch] unfolding eng'_def by blast
  have fruit: "nodesRef ((tick force ^^ k) eng') (n_id n) = Some a
        \<and> p_x (objects ((tick force ^^ k) eng') ! a) = n_x n
        \<and> p_y (objects ((tick force ^^ k) eng') ! a) = n_y n
        \<and> (0 < k \<longrightarrow> p_vx (objects ((tick force ^^ k) eng') ! a) = 0
                    \<and> p_vy (objects ((tick force ^^ k) eng') ! a) = 0)"
    if "n_status n = FRUIT" for k
  proof (cases k)
    case 0
    then show ?thesis
      using a pos by simp
  next
    case (Suc j)
    have fx: "p_fx (objects eng' ! a) = Some (n_x n)" and fy: "p_fy (objects eng' ! a) = Some (n_y n)"
      using pin that by simp_all
    show ?thesis
      using ticks_pinned [OF sim(1) a(2) fx fy sim(2), where force = force and k = k] a(1) Suc
      by (simp add: held_def)
  qed
  have free: "p_x (objects (setNodePosition (n_id n) x y eng') ! a) = x
        \<and> p_y (objects (setNodePosition (n_id n) x y eng') ! a) = y
        \<and> p_fx (objects (setNodePosition (n_id n) x y eng') ! a) = None
        \<and> p_fy (objects (setNodePosition (n_id n) x y eng') ! a) = None
        \<and> p_x (objects (tick force (setNodePosition (n_id n) x y eng')) ! a)
            = x + fst (force (setNodePosition (n_id n) x y eng') a)
        \<and> p_y (objects (tick force (setNodePosition (n_id n) x y eng')) ! a)
            = y + snd (force (setNodePosition (n_id n) x y eng') a)"
    if nf: "n_status n \<noteq> FRUIT"
  proof -
    define moved where "moved = setNodePosition (n_id n) x y eng'"
    note m = setNodePosition_at [OF a(1) sim(1) a(2), where x = x and y = y, folded moved_def]
    have obj: "objects moved ! a = (objects eng' ! a)\<lparr>p_x := x, p_y := y, p_vx := 0, p_vy := 0\<rparr>"
      using m(1) .
    have len: "a < length (objects moved)"
      using m(3) a(2) by simp
    have "objects (tick force moved) ! a = integrate (force moved a) (objects moved ! a)"
      using fold_integrate_once [OF sim(3) sim(2) len, where f = "force moved"] m(2)
      by (simp add: tick_def)
    then show ?thesis
      unfolding moved_def [symmetric] using obj pin nf
      by (simp add: integrate_free)
  qed
  show ?thesis
    unfolding Let_def eng'_def [symmetric] using a(1) fruit free by blast
qed

theorem pin_invariant_witness:
  "wf_engine engine0 \<and> distinct (map n_id [nodeA, nodeB])
   \<and> nodeB \<in> set [nodeA, nodeB] \<and> n_status nodeB = FRUIT
   \<and> p_x (objects ((tick centering ^^ 3) engine1) ! 1) = 100
   \<and> p_y (objects ((tick centering ^^ 3) engine1) ! 1) = 50
   \<and> p_vx (objects ((tick centering ^^ 3) engine1) ! 1) = 0"
proof -
  have d: "distinct (map n_id [nodeA, nodeB])"
    by (simp add: nodeA_def nodeB_def)
  have m: "nodeB \<in> set [nodeA, nodeB]"
    by simp
  have b: "n_id nodeB = ''b''" "n_status nodeB = FRUIT" "n_x nodeB = 100" "n_y nodeB = 50"
    by (simp_all add: nodeB_def)
  have r: "nodesRef engine1 ''b'' = Some 1"
    by (simp add: engine1_eval)
  have "\<exists>a. nodesRef engine1 ''b'' = Some a
          \<and> (\<forall>k. p_x (objects ((tick centering ^^ k) engine1) ! a) = 100
                \<and> p_y (objects ((tick centering ^^ k) engine1) ! a) = 50
                \<and> (0 < k \<longrightarrow> p_vx (objects ((tick centering ^^ k) engine1) ! a) = 0))"
    using pin_invariant [OF wf_engine0 d m, where E = "[edgeAB, edgeAX]" and cw = 800 and ch = 600
        and force = centering and x = 0 and y = 0]
    unfolding Let_def engine1_def [symmetric] b by blast
  then have "p_x (objects ((tick centering ^^ 3) engine1) ! 1) = 100
          \<and> p_y (objects ((tick centering ^^ 3) engine1) ! 1) = 50
          \<and> p_vx (objects ((tick centering ^^ 3) engine1) ! 1) = 0"
    using r by (metis option.inject zero_less_numeral)
  then show ?thesis
    using wf_engine0 d m b(2) by blast
qed

section \<open>The decay of alpha\<close>

lemma pow_double_hi:
  fixes q u u' :: real
  assumes "q ^ k \<le> u" and "0 \<le> q" and "u * u \<le> u'"
  shows "q ^ (2 * k) \<le> u'"
proof -
  have "q ^ (2 * k) = q ^ k * q ^ k"
    by (simp add: power_add [symmetric] mult_2)
  also have "\<dots> \<le> u * u"
    using assms(1,2) by (intro mult_mono) (auto intro: order_trans [of 0 "q ^ k" u])
  finally show ?thesis
    using assms(3) by simp
qed

lemma pow_double1_hi:
  fixes q u u' c :: real
  assumes "q ^ k \<le> u" and "0 \<le> q" and "q \<le> c" and "u * u * c \<le> u'"
  shows "q ^ Suc (2 * k) \<le> u'"
proof -
  have "q ^ (2 * k) \<le> u * u"
    using pow_double_hi [OF assms(1,2), of "u * u"] by simp
  moreover have "0 \<le> q ^ (2 * k)"
    using assms(2) by simp
  ultimately have "q ^ (2 * k) * q \<le> (u * u) * c"
    using assms(2,3) by (intro mult_mono) auto
  then show ?thesis
    using assms(4) by (simp add: mult.commute)
qed

lemma pow_double_lo:
  fixes q l l' :: real
  assumes "l \<le> q ^ k" and "0 \<le> l" and "l' \<le> l * l"
  shows "l' \<le> q ^ (2 * k)"
proof -
  have "l * l \<le> q ^ k * q ^ k"
    using assms(1,2) by (intro mult_mono) auto
  also have "\<dots> = q ^ (2 * k)"
    by (simp add: power_add [symmetric] mult_2)
  finally show ?thesis
    using assms(3) by simp
qed

lemma pow_double1_lo:
  fixes q l l' c :: real
  assumes "l \<le> q ^ k" and "0 \<le> l" and "c \<le> q" and "0 \<le> c" and "l' \<le> l * l * c"
  shows "l' \<le> q ^ Suc (2 * k)"
proof -
  have "l * l \<le> q ^ (2 * k)"
    using pow_double_lo [OF assms(1,2), of "l * l"] by simp
  then have "(l * l) * c \<le> q ^ (2 * k) * q"
    using assms(2,3,4) by (intro mult_mono) auto
  then show ?thesis
    using assms(5) by (simp add: mult.commute)
qed

lemma pow_hi_342:
  fixes q :: real
  assumes q: "q = 49 / 50"
  shows "q ^ 342 < 1 / 1000"
proof -
  have q0: "0 \<le> q" and qu: "q \<le> 49 / 50"
    using q by simp_all
  have b1: "q ^ 1 \<le> 98000000000000 / 100000000000000"
    using q by simp
  have b2: "q ^ 2 \<le> 96040000000000 / 100000000000000"
    using pow_double_hi [OF b1 q0, of "96040000000000 / 100000000000000"] by simp
  have b5: "q ^ 5 \<le> 90392079680000 / 100000000000000"
    using pow_double1_hi [OF b2 q0 qu, of "90392079680000 / 100000000000000"] by simp
  have b10: "q ^ 10 \<le> 81707280688755 / 100000000000000"
    using pow_double_hi [OF b5 q0, of "81707280688755 / 100000000000000"] by simp
  have b21: "q ^ 21 \<le> 65425581232000 / 100000000000000"
    using pow_double1_hi [OF b10 q0 qu, of "65425581232000 / 100000000000000"] by simp
  have b42: "q ^ 42 \<le> 42805066795451 / 100000000000000"
    using pow_double_hi [OF b21 q0, of "42805066795451 / 100000000000000"] by simp
  have b85: "q ^ 85 \<le> 17956282684958 / 100000000000000"
    using pow_double1_hi [OF b42 q0 qu, of "17956282684958 / 100000000000000"] by simp
  have b171: "q ^ 171 \<le> 3159795261049 / 100000000000000"
    using pow_double1_hi [OF b85 q0 qu, of "3159795261049 / 100000000000000"] by simp
  have b342: "q ^ 342 \<le> 99843060918 / 100000000000000"
    using pow_double_hi [OF b171 q0, of "99843060918 / 100000000000000"] by simp
  show ?thesis
    using b342 by simp
qed

lemma pow_lo_341:
  fixes q :: real
  assumes q: "q = 49 / 50"
  shows "1 / 1000 < q ^ 341"
proof -
  have ql: "49 / 50 \<le> q"
    using q by simp
  have b1: "98000000000000 / 100000000000000 \<le> q ^ 1"
    using q by simp
  have b2: "96040000000000 / 100000000000000 \<le> q ^ 2"
    using pow_double_lo [OF b1, of "96040000000000 / 100000000000000"] by simp
  have b5: "90392079680000 / 100000000000000 \<le> q ^ 5"
    using pow_double1_lo [OF b2 _ ql, of "90392079680000 / 100000000000000"] by simp
  have b10: "81707280688754 / 100000000000000 \<le> q ^ 10"
    using pow_double_lo [OF b5, of "81707280688754 / 100000000000000"] by simp
  have b21: "65425581231998 / 100000000000000 \<le> q ^ 21"
    using pow_double1_lo [OF b10 _ ql, of "65425581231998 / 100000000000000"] by simp
  have b42: "42805066795447 / 100000000000000 \<le> q ^ 42"
    using pow_double_lo [OF b21, of "42805066795447 / 100000000000000"] by simp
  have b85: "17956282684954 / 100000000000000 \<le> q ^ 85"
    using pow_double1_lo [OF b42 _ ql, of "17956282684954 / 100000000000000"] by simp
  have b170: "3224280878619 / 100000000000000 \<le> q ^ 170"
    using pow_double_lo [OF b85, of "3224280878619 / 100000000000000"] by simp
  have b341: "101880674405 / 100000000000000 \<le> q ^ 341"
    using pow_double1_lo [OF b170 _ ql, of "101880674405 / 100000000000000"] by simp
  show ?thesis
    using b341 by simp
qed

lemma pow_lo_150:
  fixes q :: real
  assumes q: "q = 49 / 50"
  shows "1 / 25 < q ^ 150"
proof -
  have ql: "49 / 50 \<le> q"
    using q by simp
  have b1: "98000000000000 / 100000000000000 \<le> q ^ 1"
    using q by simp
  have b2: "96040000000000 / 100000000000000 \<le> q ^ 2"
    using pow_double_lo [OF b1, of "96040000000000 / 100000000000000"] by simp
  have b4: "92236816000000 / 100000000000000 \<le> q ^ 4"
    using pow_double_lo [OF b2, of "92236816000000 / 100000000000000"] by simp
  have b9: "83374776213014 / 100000000000000 \<le> q ^ 9"
    using pow_double1_lo [OF b4 _ ql, of "83374776213014 / 100000000000000"] by simp
  have b18: "69513533085701 / 100000000000000 \<le> q ^ 18"
    using pow_double_lo [OF b9, of "69513533085701 / 100000000000000"] by simp
  have b37: "47354886564157 / 100000000000000 \<le> q ^ 37"
    using pow_double1_lo [OF b18 _ ql, of "47354886564157 / 100000000000000"] by simp
  have b75: "21976355758740 / 100000000000000 \<le> q ^ 75"
    using pow_double1_lo [OF b37 _ ql, of "21976355758740 / 100000000000000"] by simp
  have b150: "4829602124347 / 100000000000000 \<le> q ^ 150"
    using pow_double_lo [OF b75, of "4829602124347 / 100000000000000"] by simp
  show ?thesis
    using b150 by simp
qed

lemma decay_base: "1 - alpha_decay = 49 / 50" "0 \<le> 1 - alpha_decay" "1 - alpha_decay \<le> 1"
  "0 < alpha_min" "alpha_min = 1 / 1000" "0 \<le> alpha_decay"
  by (simp_all add: alpha_decay_def alpha_min_def)

lemma decay_pow_342: "(1 - alpha_decay) ^ 342 < alpha_min"
  unfolding decay_base(5) by (rule pow_hi_342 [OF decay_base(1)])

lemma decay_pow_341: "alpha_min < (1 - alpha_decay) ^ 341"
  unfolding decay_base(5) by (rule pow_lo_341 [OF decay_base(1)])

lemma decay_pow_150: "1 / 25 < (1 - alpha_decay) ^ 150"
  by (rule pow_lo_150 [OF decay_base(1)])

lemma decay_pow_above:
  assumes "n \<le> 341"
  shows "alpha_min < (1 - alpha_decay) ^ n"
proof -
  have "(1 - alpha_decay) ^ 341 \<le> (1 - alpha_decay) ^ n"
    using assms decay_base(2,3) by (rule power_decreasing)
  with decay_pow_341 show ?thesis
    by (rule less_le_trans)
qed

lemma decay_funpow_frame:
  "sim_alphaMin ((decay ^^ n) sim) = sim_alphaMin sim"
  "sim_alphaDecay ((decay ^^ n) sim) = sim_alphaDecay sim"
  "sim_nodes ((decay ^^ n) sim) = sim_nodes sim"
  by (induction n) (simp_all add: decay_frame)

lemma decay_step_above:
  assumes "sim_alphaMin sim = alpha_min" and "sim_alphaDecay sim = alpha_decay"
    and "\<not> sim_alpha sim * (1 - alpha_decay) < alpha_min"
  shows "sim_alpha (decay sim) = sim_alpha sim * (1 - alpha_decay)"
  using assms by (simp add: decay_def Let_def)

lemma decay_step_floor:
  assumes "sim_alphaMin sim = alpha_min" and "sim_alphaDecay sim = alpha_decay"
    and "sim_alpha sim * (1 - alpha_decay) < alpha_min"
  shows "sim_alpha (decay sim) = alpha_min"
  using assms by (simp add: decay_def Let_def)

lemma decay_alpha_pow:
  assumes "sim_alphaMin sim = alpha_min" and "sim_alphaDecay sim = alpha_decay"
    and "sim_alpha sim = alpha_start"
  shows "n \<le> 341 \<Longrightarrow> sim_alpha ((decay ^^ n) sim) = (1 - alpha_decay) ^ n"
proof (induction n)
  case 0
  show ?case
    using assms(3) by (simp add: alpha_start_def)
next
  case (Suc n)
  let ?s = "(decay ^^ n) sim"
  have cfg: "sim_alphaMin ?s = alpha_min" "sim_alphaDecay ?s = alpha_decay"
    using assms(1,2) by (simp_all only: decay_funpow_frame)
  have a: "sim_alpha ?s = (1 - alpha_decay) ^ n"
    using Suc by simp
  have "alpha_min < (1 - alpha_decay) ^ Suc n"
    using Suc.prems by (rule decay_pow_above)
  then have "\<not> sim_alpha ?s * (1 - alpha_decay) < alpha_min"
    unfolding a by (simp only: power_Suc2 not_less less_imp_le)
  from decay_step_above [OF cfg this] show ?case
    unfolding a by (simp only: funpow.simps o_apply power_Suc2)
qed

lemma decay_alpha_floor:
  assumes "sim_alphaMin sim = alpha_min" and "sim_alphaDecay sim = alpha_decay"
    and "sim_alpha sim = alpha_start"
  shows "342 \<le> n \<Longrightarrow> sim_alpha ((decay ^^ n) sim) = alpha_min"
proof (induction n rule: dec_induct)
  case base
  let ?s = "(decay ^^ 341) sim"
  have cfg: "sim_alphaMin ?s = alpha_min" "sim_alphaDecay ?s = alpha_decay"
    using assms(1,2) by (simp_all only: decay_funpow_frame)
  have a: "sim_alpha ?s = (1 - alpha_decay) ^ 341"
    by (rule decay_alpha_pow [OF assms]) simp
  have s: "(342::nat) = Suc 341"
    by simp
  have "sim_alpha ?s * (1 - alpha_decay) < alpha_min"
    unfolding a using decay_pow_342 by (simp only: s power_Suc2)
  from decay_step_floor [OF cfg this] show ?case
    by (simp only: s funpow.simps o_apply)
next
  case (step n)
  let ?s = "(decay ^^ n) sim"
  have cfg: "sim_alphaMin ?s = alpha_min" "sim_alphaDecay ?s = alpha_decay"
    using assms(1,2) by (simp_all only: decay_funpow_frame)
  have "alpha_min * (1 - alpha_decay) < alpha_min"
    by (simp add: alpha_min_def alpha_decay_def)
  then have "sim_alpha ?s * (1 - alpha_decay) < alpha_min"
    using step.IH by simp
  from decay_step_floor [OF cfg this] show ?case
    by (simp only: funpow.simps o_apply)
qed

lemma decay_nonincreasing:
  assumes "sim_alphaMin sim = alpha_min" and "sim_alphaDecay sim = alpha_decay"
    and "alpha_min \<le> sim_alpha sim"
  shows "sim_alpha (decay sim) \<le> sim_alpha sim \<and> alpha_min \<le> sim_alpha (decay sim)"
proof -
  have "0 \<le> sim_alpha sim"
    using assms(3) decay_base(4) by simp
  then have "sim_alpha sim * (1 - alpha_decay) \<le> sim_alpha sim"
    using decay_base(6) by (simp add: algebra_simps)
  then show ?thesis
    using assms by (auto simp: decay_def Let_def)
qed

lemma ticks_simulation:
  "simulationRef ((tick force ^^ n) eng) = map_option (decay ^^ n) (simulationRef eng)"
  by (induction n) (simp_all add: tick_frame option.map_comp o_def option.map_ident)

lemma sync_alpha:
  "\<exists>sim'. simulationRef (syncSimulation True N E cw ch eng) = Some sim'
          \<and> sim_alpha sim' = alpha_start"
proof -
  obtain h' m' ps' where r: "reconcileNodes eng N = (h', m', ps')"
    by (cases "reconcileNodes eng N")
  show ?thesis
    using sync_enabled(4) [OF r, of E cw ch] by blast
qed

lemma sim1_config:
  "simulationRef engine1 = Some sim1" "sim_alphaMin sim1 = alpha_min"
  "sim_alphaDecay sim1 = alpha_decay" "sim_alpha sim1 = alpha_start"
  by (simp_all add: engine1_eval sim1_def alpha_min_def alpha_decay_def alpha_start_def)

text \<open>
  C5, as stated, fails in its number: with decay \<open>0.02\<close> alpha is \<open>0.98 ^ 150\<close>, more than
  \<open>0.04\<close>, after 150 ticks from \<open>1\<close>, forty times the floor \<open>0.001\<close>, and it is still
  above the floor after 300 ticks. Besides, alpha also rises without any call of \<open>reheat\<close>:
  the effect sets it back to \<open>1\<close> each time it runs.
\<close>

theorem alpha_floor_counterexample:
  "(\<exists>sim. simulationRef ((tick centering ^^ 150) engine1) = Some sim
       \<and> 1 / 25 < sim_alpha sim \<and> alpha_min < sim_alpha sim)
   \<and> (\<exists>sim. simulationRef ((tick centering ^^ 300) engine1) = Some sim
       \<and> alpha_min < sim_alpha sim)
   \<and> (\<exists>sim sim'. simulationRef (tick centering engine1) = Some sim
       \<and> simulationRef (syncSimulation True [nodeA, nodeB] [edgeAB, edgeAX] 800 600
                         (tick centering engine1)) = Some sim'
       \<and> sim_alpha sim = 49 / 50 \<and> sim_alpha sim' = 1)"
proof -
  have s: "simulationRef ((tick centering ^^ n) engine1) = Some ((decay ^^ n) sim1)" for n
    by (simp only: ticks_simulation sim1_config(1) option.map)
  have a150: "sim_alpha ((decay ^^ 150) sim1) = (1 - alpha_decay) ^ 150"
    by (rule decay_alpha_pow [OF sim1_config(2-4)]) simp
  have a300: "sim_alpha ((decay ^^ 300) sim1) = (1 - alpha_decay) ^ 300"
    by (rule decay_alpha_pow [OF sim1_config(2-4)]) simp
  have b150: "alpha_min < (1 - alpha_decay) ^ 150"
    by (rule decay_pow_above) simp
  have b300: "alpha_min < (1 - alpha_decay) ^ 300"
    by (rule decay_pow_above) simp
  have "\<exists>sim. simulationRef ((tick centering ^^ 150) engine1) = Some sim
           \<and> 1 / 25 < sim_alpha sim \<and> alpha_min < sim_alpha sim"
    using s [of 150] decay_pow_150 b150 unfolding a150 [symmetric] by blast
  moreover have "\<exists>sim. simulationRef ((tick centering ^^ 300) engine1) = Some sim
           \<and> alpha_min < sim_alpha sim"
    using s [of 300] b300 unfolding a300 [symmetric] by blast
  moreover have "\<exists>sim sim'. simulationRef (tick centering engine1) = Some sim
       \<and> simulationRef (syncSimulation True [nodeA, nodeB] [edgeAB, edgeAX] 800 600
                         (tick centering engine1)) = Some sim'
       \<and> sim_alpha sim = 49 / 50 \<and> sim_alpha sim' = 1"
  proof -
    have "simulationRef (tick centering engine1) = Some (decay sim1)"
      by (simp add: tick_frame sim1_config)
    moreover have "sim_alpha (decay sim1) = 49 / 50"
      by (simp add: decay_def sim1_def Let_def)
    ultimately show ?thesis
      using sync_alpha [of "[nodeA, nodeB]" "[edgeAB, edgeAX]" 800 600 "tick centering engine1"]
      by (auto simp: alpha_start_def)
  qed
  ultimately show ?thesis
    by blast
qed

text \<open>
  C5, amended. For a simulation configured with \<open>alphaMin = 0.001\<close> and
  \<open>alphaDecay = 0.02\<close>: a tick never raises an alpha that is at least \<open>alphaMin\<close>, and
  keeps it at least \<open>alphaMin\<close>; starting from alpha \<open>1\<close>, alpha is \<open>0.98 ^ n\<close> and above
  the floor after \<open>n < 342\<close> ticks, and equals the floor after every \<open>n \<ge> 342\<close> ticks.
  A run of the effect, like \<open>reheat\<close>, sets alpha back to \<open>1\<close>.
\<close>

theorem alpha_schedule:
  assumes "simulationRef eng = Some sim"
    and "sim_alphaMin sim = alpha_min" and "sim_alphaDecay sim = alpha_decay"
  shows "(alpha_min \<le> sim_alpha sim \<longrightarrow>
            (\<exists>sim'. simulationRef (tick force eng) = Some sim'
                  \<and> sim_alpha sim' \<le> sim_alpha sim \<and> alpha_min \<le> sim_alpha sim'))
         \<and> (sim_alpha sim = alpha_start \<longrightarrow>
            (\<forall>n. \<exists>sim'. simulationRef ((tick force ^^ n) eng) = Some sim'
                  \<and> (n < 342 \<longrightarrow> sim_alpha sim' = (1 - alpha_decay) ^ n
                                  \<and> alpha_min < sim_alpha sim')
                  \<and> (342 \<le> n \<longrightarrow> sim_alpha sim' = alpha_min)))
         \<and> (\<exists>sim'. simulationRef (syncSimulation True N E cw ch eng) = Some sim'
                  \<and> sim_alpha sim' = alpha_start)"
proof (intro conjI impI allI)
  assume "alpha_min \<le> sim_alpha sim"
  from decay_nonincreasing [OF assms(2,3) this]
  show "\<exists>sim'. simulationRef (tick force eng) = Some sim'
           \<and> sim_alpha sim' \<le> sim_alpha sim \<and> alpha_min \<le> sim_alpha sim'"
    using assms(1) by (simp add: tick_frame)
next
  fix n
  assume start: "sim_alpha sim = alpha_start"
  have s: "simulationRef ((tick force ^^ n) eng) = Some ((decay ^^ n) sim)"
    using assms(1) by (simp add: ticks_simulation)
  have lo: "sim_alpha ((decay ^^ n) sim) = (1 - alpha_decay) ^ n
             \<and> alpha_min < sim_alpha ((decay ^^ n) sim)" if "n < 342"
  proof -
    have n: "n \<le> 341"
      using that by simp
    show ?thesis
      using decay_alpha_pow [OF assms(2,3) start n] decay_pow_above [OF n] by (simp only:)
  qed
  have hi: "sim_alpha ((decay ^^ n) sim) = alpha_min" if "342 \<le> n"
    using decay_alpha_floor [OF assms(2,3) start that] .
  show "\<exists>sim'. simulationRef ((tick force ^^ n) eng) = Some sim'
           \<and> (n < 342 \<longrightarrow> sim_alpha sim' = (1 - alpha_decay) ^ n \<and> alpha_min < sim_alpha sim')
           \<and> (342 \<le> n \<longrightarrow> sim_alpha sim' = alpha_min)"
    using s lo hi by blast
next
  show "\<exists>sim'. simulationRef (syncSimulation True N E cw ch eng) = Some sim'
           \<and> sim_alpha sim' = alpha_start"
    by (rule sync_alpha)
qed

theorem alpha_schedule_witness:
  "simulationRef engine1 = Some sim1 \<and> sim_alphaMin sim1 = alpha_min
   \<and> sim_alphaDecay sim1 = alpha_decay \<and> sim_alpha sim1 = alpha_start
   \<and> (\<exists>sim'. simulationRef ((tick centering ^^ 342) engine1) = Some sim' \<and> sim_alpha sim' = alpha_min)
   \<and> (\<exists>sim'. simulationRef ((tick centering ^^ 341) engine1) = Some sim' \<and> alpha_min < sim_alpha sim')"
proof -
  note t = alpha_schedule [OF sim1_config(1-3), where force = centering and N = "[]" and E = "[]"
      and cw = 0 and ch = 0]
  have all: "\<forall>n. \<exists>sim'. simulationRef ((tick centering ^^ n) engine1) = Some sim'
                  \<and> (n < 342 \<longrightarrow> sim_alpha sim' = (1 - alpha_decay) ^ n
                                  \<and> alpha_min < sim_alpha sim')
                  \<and> (342 \<le> n \<longrightarrow> sim_alpha sim' = alpha_min)"
    using t sim1_config(4) by blast
  have "\<exists>sim'. simulationRef ((tick centering ^^ 342) engine1) = Some sim' \<and> sim_alpha sim' = alpha_min"
    using all [rule_format, of 342] by (metis order_refl)
  moreover have "(341::nat) < 342"
    by simp
  then have "\<exists>sim'. simulationRef ((tick centering ^^ 341) engine1) = Some sim' \<and> alpha_min < sim_alpha sim'"
    using all [rule_format, of 341] by metis
  ultimately show ?thesis
    using sim1_config by blast
qed

end
